theory Spec2Isabelle
  imports Main "HOL-Library.Word"
begin

section \<open>Characters and strings\<close>

text \<open>
  Python \<open>str\<close> values are modelled as \<open>string\<close>, a list of 8-bit characters (code
  points 0 to 255).  Within that range Python's \<open>\d\<close> is exactly \<open>[0-9]\<close> and \<open>.\<close>
  is every character but the line feed.  The character class of \<open>csi_final\<close> in
  \<open>CONTROL_RE\<close> also lists the three characters \<open>a\<close>, U+2013 and \<open>z\<close>; U+2013 is
  beyond the 8-bit range and therefore no input of this model.
\<close>

abbreviation ESC :: char where "ESC \<equiv> CHR 0x1B"
abbreviation BEL :: char where "BEL \<equiv> CHR 0x07"
abbreviation LF :: char where "LF \<equiv> CHR 0x0A"
abbreviation CR :: char where "CR \<equiv> CHR 0x0D"
abbreviation BSL :: char where "BSL \<equiv> CHR 0x5C"
abbreviation DQUOTE :: char where "DQUOTE \<equiv> CHR 0x22"
abbreviation SQUOTE :: char where "SQUOTE \<equiv> CHR 0x27"
abbreviation BQUOTE :: char where "BQUOTE \<equiv> CHR 0x60"

text \<open>The String Terminator \<open>ESC \\<close>.\<close>

abbreviation ST :: string where "ST \<equiv> [ESC, BSL]"

text \<open>\<open>\d\<close>\<close>

definition is_digit :: "char \<Rightarrow> bool" where
  "is_digit c \<longleftrightarrow> c \<in> set ''0123456789''"

text \<open>\<open>[0-9A-Fa-f]\<close>\<close>

definition is_hex :: "char \<Rightarrow> bool" where
  "is_hex c \<longleftrightarrow> c \<in> set ''0123456789ABCDEFabcdef''"

section \<open>The escape-sequence classifier \<open>CONTROL_RE\<close> (term.py)\<close>

text \<open>\<open>[0-9:;<=>?]\<close>\<close>

definition csi_params_char :: "char \<Rightarrow> bool" where
  "csi_params_char c \<longleftrightarrow> c \<in> set ''0123456789:;<=>?''"

text \<open>\<open>[!\"#$%&'()*+,\-./]\<close>\<close>

definition csi_inter_char :: "char \<Rightarrow> bool" where
  "csi_inter_char c \<longleftrightarrow> c \<in> set (''!'' @ [DQUOTE] @ ''#$%&'' @ [SQUOTE] @ ''()*+,-./'')"

text \<open>
  \<open>[A-Za-z@[\]^_`a-z{|}~]\<close>, where the second \<open>a-z\<close> of the source is written with
  U+2013 instead of a hyphen and so stands for the single characters \<open>a\<close>, U+2013, \<open>z\<close>.
\<close>

definition csi_final_char :: "char \<Rightarrow> bool" where
  "csi_final_char c \<longleftrightarrow>
     c \<in> set (''ABCDEFGHIJKLMNOPQRSTUVWXYZ'' @ ''abcdefghijklmnopqrstuvwxyz''
              @ ''@[]^_'' @ [BQUOTE] @ ''az'' @ ''{|}~'')"

text \<open>\<open>[NOP[\\\]X^_]\<close>\<close>

definition fe_char :: "char \<Rightarrow> bool" where
  "fe_char c \<longleftrightarrow> c \<in> set (''NOP['' @ [BSL] @ '']X^_'')"

text \<open>
  The result of \<open>match.groupdict()\<close>: every named group of \<open>CONTROL_RE\<close> is a key of
  the dictionary, and a group that took no part in the match has the value \<open>None\<close>.
\<close>

record groups =
  csi :: "string option"
  csi_params :: "string option"
  csi_inter :: "string option"
  csi_final :: "string option"
  osc :: "string option"
  osc_string :: "string option"
  osc_term :: "string option"
  apc :: "string option"
  apc_string :: "string option"
  apc_term :: "string option"
  fe :: "string option"

definition no_groups :: groups where
  "no_groups = \<lparr> csi = None, csi_params = None, csi_inter = None, csi_final = None,
                 osc = None, osc_string = None, osc_term = None,
                 apc = None, apc_string = None, apc_term = None, fe = None \<rparr>"

text \<open>
  The \<open>csi\<close> alternative, tried on the text after the escape character.  The three
  character classes are pairwise disjoint, so giving back characters of a greedy run
  never lets a later part match: the runs are the maximal ones.
\<close>

definition csi_alt :: "string \<Rightarrow> groups option" where
  "csi_alt s =
     (case s of
        [] \<Rightarrow> None
      | c # r \<Rightarrow>
          if c = CHR ''['' then
            (let ps = takeWhile csi_params_char r; r1 = dropWhile csi_params_char r;
                 ins = takeWhile csi_inter_char r1; r2 = dropWhile csi_inter_char r1
             in case r2 of
                  [] \<Rightarrow> None
                | f # _ \<Rightarrow>
                    if csi_final_char f
                    then Some (no_groups\<lparr> csi := Some (CHR ''['' # ps @ ins @ [f]),
                                           csi_params := Some ps, csi_inter := Some ins,
                                           csi_final := Some [f] \<rparr>)
                    else None)
          else None)"

text \<open>The terminators \<open>\x1b\\|\x07\<close> of OSC and \<open>\x1b\\<close> of APC, tried at the head of a text.\<close>

definition osc_term_at :: "string \<Rightarrow> string option" where
  "osc_term_at s = (if take 2 s = ST then Some ST
                    else if take 1 s = [BEL] then Some [BEL] else None)"

definition apc_term_at :: "string \<Rightarrow> string option" where
  "apc_term_at s = (if take 2 s = ST then Some ST else None)"

text \<open>
  \<open>.*(?=term)\<close> followed by \<open>(term)\<close>: the greedy \<open>.*\<close> takes a character other than
  the line feed whenever the rest of the text still lets the pattern match, and stops
  where the terminator begins otherwise.  The result is the string and the terminator.
\<close>

fun string_scan :: "(string \<Rightarrow> string option) \<Rightarrow> string \<Rightarrow> (string \<times> string) option" where
  "string_scan term_at [] = None"
| "string_scan term_at (c # cs) =
     (case (if c = LF then None else string_scan term_at cs) of
        Some (s, t) \<Rightarrow> Some (c # s, t)
      | None \<Rightarrow> (case term_at (c # cs) of Some t \<Rightarrow> Some ([], t) | None \<Rightarrow> None))"

definition osc_alt :: "string \<Rightarrow> groups option" where
  "osc_alt s =
     (case s of
        [] \<Rightarrow> None
      | c # r \<Rightarrow>
          if c = CHR '']'' then
            (case string_scan osc_term_at r of
               None \<Rightarrow> None
             | Some (str, t) \<Rightarrow>
                 Some (no_groups\<lparr> osc := Some (CHR '']'' # str @ t),
                                  osc_string := Some str, osc_term := Some t \<rparr>))
          else None)"

definition apc_alt :: "string \<Rightarrow> groups option" where
  "apc_alt s =
     (case s of
        [] \<Rightarrow> None
      | c # r \<Rightarrow>
          if c = CHR ''_'' then
            (case string_scan apc_term_at r of
               None \<Rightarrow> None
             | Some (str, t) \<Rightarrow>
                 Some (no_groups\<lparr> apc := Some (CHR ''_'' # str @ t),
                                  apc_string := Some str, apc_term := Some t \<rparr>))
          else None)"

definition fe_alt :: "string \<Rightarrow> groups option" where
  "fe_alt s =
     (case s of
        [] \<Rightarrow> None
      | c # r \<Rightarrow> if fe_char c then Some (no_groups\<lparr> fe := Some [c] \<rparr>) else None)"

text \<open>The four alternatives in the order of the pattern; the first that matches wins.\<close>

definition control_alts :: "string \<Rightarrow> groups option" where
  "control_alts s =
     (case csi_alt s of
        Some g \<Rightarrow> Some g
      | None \<Rightarrow>
          (case osc_alt s of
             Some g \<Rightarrow> Some g
           | None \<Rightarrow> (case apc_alt s of Some g \<Rightarrow> Some g | None \<Rightarrow> fe_alt s)))"

text \<open>
  \<open>CONTROL_RE.search(output)\<close> followed by \<open>groupdict()\<close>: the leftmost position at
  which the pattern matches, \<open>None\<close> when there is none.
\<close>

fun CONTROL_RE_search :: "string \<Rightarrow> groups option" where
  "CONTROL_RE_search [] = None"
| "CONTROL_RE_search (c # cs) =
     (if c = ESC
      then (case control_alts cs of Some g \<Rightarrow> Some g | None \<Rightarrow> CONTROL_RE_search cs)
      else CONTROL_RE_search cs)"

section \<open>Query codes and response patterns (term.py)\<close>

definition QueryCodes_device :: string where
  "QueryCodes_device = ESC # ''[>0c''"

definition QueryCodes_pixel_dimensions :: string where
  "QueryCodes_pixel_dimensions = ESC # ''[14t''"

definition QueryCodes_background_color :: string where
  "QueryCodes_background_color = ESC # '']11;?'' @ ST"

definition QueryCodes_sixel :: string where
  "QueryCodes_sixel = ESC # ''[?1;1;0S''"

definition QueryCodes_kitty :: string where
  "QueryCodes_kitty = ESC # ''_Gi=1,s=1,v=1,a=q,t=d,f=24;AAAA'' @ ST @ ESC # ''[1K'' @ ESC # ''[1G''"

text \<open>
  \<open>QueryResponsePatterns.device\<close> is \<open>\x1b\[\>(\d;?)+c\<close>.  \<open>device_tail\<close> matches
  \<open>(\d;?)+c\<close> at the head of a text and gives the text after the match.  After a digit
  and its optional semicolon the repetition is tried again before the final \<open>c\<close>.
\<close>

fun device_tail :: "string \<Rightarrow> string option" where
  "device_tail [] = None"
| "device_tail (d # s) =
     (if is_digit d then
        (case s of
           [] \<Rightarrow> None
         | x # s' \<Rightarrow>
             if x = CHR '';'' then
               (case device_tail s' of
                  Some r \<Rightarrow> Some r
                | None \<Rightarrow> (case s' of [] \<Rightarrow> None
                           | y # r \<Rightarrow> if y = CHR ''c'' then Some r else None))
             else
               (case device_tail s of
                  Some r \<Rightarrow> Some r
                | None \<Rightarrow> if x = CHR ''c'' then Some s' else None))
      else None)"

definition device_match_at :: "string \<Rightarrow> string option" where
  "device_match_at s = (if take 3 s = ESC # ''[>'' then device_tail (drop 3 s) else None)"

text \<open>\<open>re.search(QueryResponsePatterns.device, output)\<close>, as a truth value.\<close>

fun device_search :: "string \<Rightarrow> bool" where
  "device_search [] = False"
| "device_search (c # cs) = (device_match_at (c # cs) \<noteq> None \<or> device_search cs)"

text \<open>\<open>re.sub(QueryResponsePatterns.device, "", output, 1)\<close>: the leftmost match is cut out.\<close>

fun device_sub :: "string \<Rightarrow> string" where
  "device_sub [] = []"
| "device_sub (c # cs) =
     (case device_match_at (c # cs) of Some r \<Rightarrow> r | None \<Rightarrow> c # device_sub cs)"

text \<open>
  The dictionaries of the small patterns are association lists; \<open>dict_get\<close> is
  \<open>d.get(key, default)\<close>.
\<close>

definition dict_get :: "(string \<times> 'v) list \<Rightarrow> string \<Rightarrow> 'v \<Rightarrow> 'v" where
  "dict_get d k dflt = (case map_of d k of None \<Rightarrow> dflt | Some v \<Rightarrow> v)"

text \<open>
  \<open>QueryResponsePatterns.pixel_dimensions.match(params)\<close> with the pattern
  \<open>4;(?P<y>\d+);(?P<x>\d+)\<close>, and the \<open>groupdict()\<close> of the match.
\<close>

definition pixel_dimensions_match :: "string \<Rightarrow> (string \<times> string) list option" where
  "pixel_dimensions_match s =
     (if take 2 s = ''4;'' then
        (let r = drop 2 s; y = takeWhile is_digit r; r1 = dropWhile is_digit r
         in if y = [] \<or> take 1 r1 \<noteq> '';'' then None
            else (let x = takeWhile is_digit (drop 1 r1)
                  in if x = [] then None else Some [(''y'', y), (''x'', x)]))
      else None)"

text \<open>
  \<open>QueryResponsePatterns.background_color.match(oscs)\<close>.  A field \<open>[0-9A-Fa-f]{2,4}\<close>
  takes up to four hexadecimal digits; a shorter choice is followed by a hexadecimal
  digit and never by the \<open>/\<close> that the pattern asks for next.
\<close>

definition hex_field :: "string \<Rightarrow> string" where
  "hex_field s = takeWhile is_hex (take 4 s)"

definition background_color_match :: "string \<Rightarrow> (string \<times> string) list option" where
  "background_color_match s =
     (if take 7 s = ''11;rgb:'' then
        (let s1 = drop 7 s; r = hex_field s1; s2 = drop (length r) s1
         in if length r < 2 \<or> take 1 s2 \<noteq> ''/'' then None
            else (let s3 = drop 1 s2; g = hex_field s3; s4 = drop (length g) s3
                  in if length g < 2 \<or> take 1 s4 \<noteq> ''/'' then None
                     else (let b = hex_field (drop 1 s4)
                           in if length b < 2 then None
                              else Some [(''r'', r), (''g'', g), (''b'', b)])))
      else None)"

text \<open>\<open>QueryResponsePatterns.sixel.findall(param_str)\<close> with the pattern \<open>\d+\<close>.\<close>

fun digit_runs :: "string \<Rightarrow> string \<Rightarrow> string list" where
  "digit_runs cur [] = (if cur = [] then [] else [cur])"
| "digit_runs cur (c # cs) =
     (if is_digit c then digit_runs (cur @ [c]) cs
      else if cur = [] then digit_runs [] cs
      else cur # digit_runs [] cs)"

definition sixel_findall :: "string \<Rightarrow> string list" where
  "sixel_findall s = digit_runs [] s"

text \<open>\<open>int(x)\<close> on a string of decimal digits.\<close>

definition int_of_digits :: "string \<Rightarrow> int" where
  "int_of_digits s = fold (\<lambda>c n. 10 * n + (of_char c - 48)) s 0"

text \<open>\<open>s.split(sep)\<close> with a separator of one character, and \<open>s.lstrip("G")\<close>.\<close>

fun split_acc :: "char \<Rightarrow> string \<Rightarrow> string \<Rightarrow> string list" where
  "split_acc sep cur [] = [cur]"
| "split_acc sep cur (c # cs) =
     (if c = sep then cur # split_acc sep [] cs else split_acc sep (cur @ [c]) cs)"

definition split :: "string \<Rightarrow> char \<Rightarrow> string list" where
  "split s sep = split_acc sep [] s"

definition lstrip_G :: "string \<Rightarrow> string" where
  "lstrip_G s = dropWhile (\<lambda>c. c = CHR ''G'') s"

section \<open>The terminal and the application state\<close>

text \<open>
  The exceptions: \<open>termios.error\<close> from \<open>tcgetattr\<close>, \<open>OSError\<close> from the \<open>ioctl\<close>, a read or
  a write, and the three that the accessors raise themselves.
\<close>

datatype error = TermiosError | OSError | TypeError | AttributeError | ZeroDivisionError

text \<open>
  The outcome of a call: it returns a value, it raises, or it never returns because
  \<open>sys.stdin.read(1)\<close> blocks for ever.
\<close>

datatype 'a res = Ret 'a | Exc error | Hang

text \<open>
  The terminal attributes as far as \<open>tty.setcbreak\<close> touches them: it clears \<open>ECHO\<close> and
  \<open>ICANON\<close> and sets \<open>VMIN\<close> to 1 and \<open>VTIME\<close> to 0.
\<close>

record tattr =
  echo :: bool
  icanon :: bool
  vmin :: nat
  vtime :: nat
  other_attrs :: "nat list"

definition setcbreak :: "tattr \<Rightarrow> tattr" where
  "setcbreak t = t\<lparr> echo := False, icanon := False, vmin := 1, vtime := 0 \<rparr>"

text \<open>The calls made on the terminal and on the output device, in order.\<close>

datatype event =
    TcGetAttr
  | SetCbreak
  | WriteRaw string
  | Flush
  | Read
  | TcSetAttr tattr

text \<open>What one \<open>sys.stdin.read(1)\<close> does: a character, the empty string, or an exception.\<close>

datatype rd = Ch char | Eof | RdRaise

text \<open>
  The state of the process and of its terminal.
  \<^item> \<open>have_termios_tty_fcntl\<close>: whether the three modules can be imported;
  \<^item> \<open>stdin_isatty\<close>: \<open>termios.tcgetattr\<close> raises on anything but a terminal;
  \<^item> \<open>stdout_winsize\<close>: the four unsigned shorts that \<open>TIOCGWINSZ\<close> stores, \<open>None\<close>
    when the \<open>ioctl\<close> raises;
  \<^item> \<open>output_size\<close>: rows and columns of \<open>self.output.get_size()\<close>;
  \<^item> \<open>stdin\<close>: what the coming reads will do; when the list is used up the next read
    blocks for ever;
  \<^item> \<open>out_budget\<close>: how many calls on the output device succeed before one raises
    (\<open>None\<close>: all of them);
  \<^item> \<open>probes\<close>: the number of calls of \<open>_query_term\<close> so far;
  \<^item> \<open>sixel_cache\<close>, \<open>kitty_cache\<close>: the entries of the two \<open>lru_cache\<close> decorators for
    this object.
\<close>

record app =
  have_termios_tty_fcntl :: bool
  stdin_isatty :: bool
  stdout_winsize :: "(16 word \<times> 16 word \<times> 16 word \<times> 16 word) option"
  output_size :: "int \<times> int"
  tty_attr :: tattr
  stdin :: "rd list"
  out_budget :: "nat option"
  trace :: "event list"
  probes :: nat
  sixel_cache :: "bool option"
  kitty_cache :: "bool option"

definition log :: "event \<Rightarrow> app \<Rightarrow> app" where
  "log e a = a\<lparr> trace := trace a @ [e] \<rparr>"

definition out_call :: "event \<Rightarrow> app \<Rightarrow> unit res \<times> app" where
  "out_call e a =
     (case out_budget a of
        None \<Rightarrow> (Ret (), log e a)
      | Some n \<Rightarrow>
          (case n of
             0 \<Rightarrow> (Exc OSError, log e a)
           | Suc m \<Rightarrow> (Ret (), log e (a\<lparr> out_budget := Some m \<rparr>))))"

text \<open>\<open>self.output.write_raw(s); self.output.flush()\<close>\<close>

definition write_flush :: "string \<Rightarrow> app \<Rightarrow> unit res \<times> app" where
  "write_flush s a =
     (case out_call (WriteRaw s) a of
        (Ret u, a1) \<Rightarrow> out_call Flush a1
      | (Exc e, a1) \<Rightarrow> (Exc e, a1)
      | (Hang, a1) \<Rightarrow> (Hang, a1))"

section \<open>The protocol engine \<open>_query_term\<close> (term.py)\<close>

text \<open>
  The \<open>while True\<close> loop.  Each turn consumes one entry of the coming reads, which are
  passed as the list the recursion runs over.
\<close>

fun read_loop :: "string \<Rightarrow> string \<Rightarrow> bool \<Rightarrow> bool \<Rightarrow> rd list \<Rightarrow> app \<Rightarrow> string res \<times> app" where
  "read_loop query_code output output_started query_sent [] a = (Hang, log Read a)"
| "read_loop query_code output output_started query_sent (r # rs) a =
     (let a1 = log Read (a\<lparr> stdin := rs \<rparr>) in
      case r of
        RdRaise \<Rightarrow> (Exc OSError, a1)
      | _ \<Rightarrow>
         (let output1 = output @ (case r of Ch c \<Rightarrow> [c] | _ \<Rightarrow> []) in
          case (if query_sent then (Ret (), a1) else write_flush query_code a1) of
            (Exc e, a2) \<Rightarrow> (Exc e, a2)
          | (Hang, a2) \<Rightarrow> (Hang, a2)
          | (Ret u, a2) \<Rightarrow>
              if device_search output1 then
                if \<not> output_started then
                  (case write_flush QueryCodes_device a2 of
                     (Ret u, a3) \<Rightarrow> read_loop query_code [] True True rs a3
                   | (Exc e, a3) \<Rightarrow> (Exc e, a3)
                   | (Hang, a3) \<Rightarrow> (Hang, a3))
                else (Ret output1, a2)
              else read_loop query_code output1 output_started True rs a2))"

text \<open>The body of the \<open>try\<close> statement.\<close>

definition try_body :: "string \<Rightarrow> app \<Rightarrow> string res \<times> app" where
  "try_body query_code a =
     (let a1 = log SetCbreak (a\<lparr> tty_attr := setcbreak (tty_attr a) \<rparr>) in
      case write_flush QueryCodes_device a1 of
        (Ret u, a2) \<Rightarrow> read_loop query_code [] False False (stdin a2) a2
      | (Exc e, a2) \<Rightarrow> (Exc e, a2)
      | (Hang, a2) \<Rightarrow> (Hang, a2))"

text \<open>
  \<open>_query_term\<close>.  The \<open>finally\<close> clause runs when the \<open>try\<close> body returns and when it
  raises; a body that never returns does not reach it.
\<close>

definition query_term :: "string \<Rightarrow> app \<Rightarrow> groups option res \<times> app" where
  "query_term query_code a0 =
     (let a = a0\<lparr> probes := Suc (probes a0) \<rparr> in
      if have_termios_tty_fcntl a then
        if \<not> stdin_isatty a then (Exc TermiosError, log TcGetAttr a)
        else
          (let tattr = tty_attr a;
               (r, a1) = try_body query_code (log TcGetAttr a);
               a2 = log (TcSetAttr tattr) (a1\<lparr> tty_attr := tattr \<rparr>)
           in case r of
                Hang \<Rightarrow> (Hang, a1)
              | Exc e \<Rightarrow> (Exc e, a2)
              | Ret output \<Rightarrow> (Ret (CONTROL_RE_search (device_sub output)), a2))
      else (Ret None, a))"

section \<open>The capability accessors (term.py)\<close>

text \<open>\<open>_tiocgwnsz\<close>: the array of four unsigned shorts, all zero unless the \<open>ioctl\<close> filled it.\<close>

definition tiocgwnsz :: "app \<Rightarrow> (int \<times> int \<times> int \<times> int) res" where
  "tiocgwnsz a =
     (if have_termios_tty_fcntl a then
        (case stdout_winsize a of
           None \<Rightarrow> Exc OSError
         | Some (rows, cols, xpixels, ypixels) \<Rightarrow>
             Ret (uint rows, uint cols, uint xpixels, uint ypixels))
      else Ret (0, 0, 0, 0))"

text \<open>
  \<open>bg_color\<close>, a plain property.  \<open>bg_color_result\<close> is what the body does with the
  value of \<open>_query_term\<close>.
\<close>

definition bg_color_result :: "groups option \<Rightarrow> string option" where
  "bg_color_result result =
     (case result of
        None \<Rightarrow> None
      | Some res \<Rightarrow>
          (case osc_string res of
             None \<Rightarrow> None
           | Some oscs \<Rightarrow>
               if oscs = [] then None
               else
                 (case background_color_match oscs of
                    None \<Rightarrow> None
                  | Some colors \<Rightarrow>
                      if colors \<noteq> [] \<and> length colors \<ge> 3 then
                        (let r = dict_get colors ''r'' ''00'';
                             g = dict_get colors ''g'' ''00'';
                             b = dict_get colors ''b'' ''00''
                         in Some (CHR ''#'' # take 2 r @ take 2 g @ take 2 b))
                      else None)))"

definition bg_color :: "app \<Rightarrow> string option res \<times> app" where
  "bg_color a =
     (case query_term QueryCodes_background_color a of
        (Ret result, a1) \<Rightarrow> (Ret (bg_color_result result), a1)
      | (Exc e, a1) \<Rightarrow> (Exc e, a1)
      | (Hang, a1) \<Rightarrow> (Hang, a1))"

text \<open>
  \<open>term_size_px\<close>, a plain property.  In
  \<open>(x := values.get("x") is not None) and (y := values.get("y") is not None)\<close> the
  assignment expression binds weaker than \<open>is not\<close>: \<open>x\<close> and \<open>y\<close> are truth values,
  and \<open>int(True)\<close> is 1.  \<open>result.get("csi_params", "")\<close> is \<open>None\<close> for a match of
  another alternative, since the key is in the dictionary; \<open>match(None)\<close> raises.
\<close>

definition term_size_result :: "int \<Rightarrow> int \<Rightarrow> groups option \<Rightarrow> (int \<times> int) res" where
  "term_size_result px py result =
     (case result of
        None \<Rightarrow> Ret (px, py)
      | Some res \<Rightarrow>
          (case csi_params res of
             None \<Rightarrow> Exc TypeError
           | Some params \<Rightarrow>
               (case pixel_dimensions_match params of
                  None \<Rightarrow> Ret (px, py)
                | Some values \<Rightarrow>
                    if values \<noteq> [] then
                      (let x = (map_of values ''x'' \<noteq> None) in
                       if x then
                         (let y = (map_of values ''y'' \<noteq> None) in
                          if y then Ret (of_bool x, of_bool y) else Ret (px, py))
                       else Ret (px, py))
                    else Ret (px, py))))"

definition term_size_px :: "app \<Rightarrow> (int \<times> int) res \<times> app" where
  "term_size_px a =
     (case tiocgwnsz a of
        Exc e \<Rightarrow> (Exc e, a)
      | Hang \<Rightarrow> (Hang, a)
      | Ret (rows, cols, px, py) \<Rightarrow>
          if px = 0 then
            (case query_term QueryCodes_pixel_dimensions a of
               (Ret result, a1) \<Rightarrow> (term_size_result px py result, a1)
             | (Exc e, a1) \<Rightarrow> (Exc e, a1)
             | (Hang, a1) \<Rightarrow> (Hang, a1))
          else (Ret (px, py), a))"

text \<open>\<open>char_size_px\<close>, a plain property; \<open>//\<close> raises on a zero divisor.\<close>

definition char_size_px :: "app \<Rightarrow> (int \<times> int) res \<times> app" where
  "char_size_px a =
     (case term_size_px a of
        (Exc e, a1) \<Rightarrow> (Exc e, a1)
      | (Hang, a1) \<Rightarrow> (Hang, a1)
      | (Ret (px, py), a1) \<Rightarrow>
          (let (rows, cols) = output_size a1 in
           if px = 0 then (Ret (10, 22), a1)
           else if cols = 0 \<or> rows = 0 then (Exc ZeroDivisionError, a1)
           else (Ret (px div cols, py div rows), a1)))"

text \<open>
  \<open>has_sixel_graphics\<close>.  \<open>sixel_result\<close> is what the body does with the value of
  \<open>_query_term\<close>; \<open>findall(None)\<close> raises.  The \<open>lru_cache\<close> decorator stores a value
  that the body returns, and nothing when the body raises.
\<close>

definition sixel_result :: "groups option \<Rightarrow> bool res" where
  "sixel_result result =
     (case result of
        None \<Rightarrow> Ret False
      | Some res \<Rightarrow>
          (case csi_params res of
             None \<Rightarrow> Exc TypeError
           | Some param_str \<Rightarrow>
               (let matches = sixel_findall param_str;
                    params = map int_of_digits matches
                in if length params \<ge> 3 then
                     (let Ps = take 3 params ! 1 in
                      if Ps = 0 then Ret True else Ret False)
                   else Ret False)))"

definition has_sixel_graphics_body :: "app \<Rightarrow> bool res \<times> app" where
  "has_sixel_graphics_body a =
     (case query_term QueryCodes_sixel a of
        (Ret result, a1) \<Rightarrow> (sixel_result result, a1)
      | (Exc e, a1) \<Rightarrow> (Exc e, a1)
      | (Hang, a1) \<Rightarrow> (Hang, a1))"

definition has_sixel_graphics :: "app \<Rightarrow> bool res \<times> app" where
  "has_sixel_graphics a =
     (case sixel_cache a of
        Some v \<Rightarrow> (Ret v, a)
      | None \<Rightarrow>
          (case has_sixel_graphics_body a of
             (Ret v, a1) \<Rightarrow> (Ret v, a1\<lparr> sixel_cache := Some v \<rparr>)
           | (Exc e, a1) \<Rightarrow> (Exc e, a1)
           | (Hang, a1) \<Rightarrow> (Hang, a1)))"

text \<open>\<open>has_kitty_graphics\<close>; \<open>None.startswith\<close> raises.\<close>

definition kitty_result :: "groups option \<Rightarrow> bool res" where
  "kitty_result result =
     (case result of
        None \<Rightarrow> Ret False
      | Some res \<Rightarrow>
          (case apc_string res of
             None \<Rightarrow> Exc AttributeError
           | Some apc_str \<Rightarrow>
               if take 1 apc_str = ''G'' then
                 (let response = split (lstrip_G apc_str) (CHR '';'') in
                  if length response \<ge> 2 then
                    (if response ! 1 = ''OK'' then Ret True else Ret False)
                  else Ret False)
               else Ret False))"

definition has_kitty_graphics_body :: "app \<Rightarrow> bool res \<times> app" where
  "has_kitty_graphics_body a =
     (case query_term QueryCodes_kitty a of
        (Ret result, a1) \<Rightarrow> (kitty_result result, a1)
      | (Exc e, a1) \<Rightarrow> (Exc e, a1)
      | (Hang, a1) \<Rightarrow> (Hang, a1))"

definition has_kitty_graphics :: "app \<Rightarrow> bool res \<times> app" where
  "has_kitty_graphics a =
     (case kitty_cache a of
        Some v \<Rightarrow> (Ret v, a)
      | None \<Rightarrow>
          (case has_kitty_graphics_body a of
             (Ret v, a1) \<Rightarrow> (Ret v, a1\<lparr> kitty_cache := Some v \<rparr>)
           | (Exc e, a1) \<Rightarrow> (Exc e, a1)
           | (Hang, a1) \<Rightarrow> (Hang, a1)))"

section \<open>Rendered output controls (output/control.py)\<close>

text \<open>The cache key \<open>(width, *self.extra_keys)\<close>.\<close>

type_synonym key = "int \<times> bool list"

text \<open>
  Modelled from the spec: \<open>SimpleCache\<close> belongs to \<open>prompt_toolkit\<close> and is not among
  the sources.  It is a store of bounded size: \<open>get(key, getter)\<close> gives the value stored
  for the key and otherwise calls the getter once, stores what it returns and, when the
  store has grown beyond \<open>maxsize\<close>, drops the entry at the front.  The entries are kept
  in order, the one to drop next at the front.  With \<open>renew_on_hit\<close> a hit moves its
  entry to the back, which is the least-recently-used policy of the spec; without, the
  entry stored first is dropped.
\<close>

record 'v simple_cache =
  entries :: "(key \<times> 'v) list"
  maxsize :: nat
  renew_on_hit :: bool

definition cache_lookup :: "'v simple_cache \<Rightarrow> key \<Rightarrow> 'v option" where
  "cache_lookup c k = map_of (entries c) k"

definition cache_hit :: "'v simple_cache \<Rightarrow> key \<Rightarrow> 'v simple_cache" where
  "cache_hit c k =
     (if renew_on_hit c
      then c\<lparr> entries := filter (\<lambda>e. fst e \<noteq> k) (entries c) @ filter (\<lambda>e. fst e = k) (entries c) \<rparr>
      else c)"

definition cache_store :: "'v simple_cache \<Rightarrow> key \<Rightarrow> 'v \<Rightarrow> 'v simple_cache" where
  "cache_store c k v =
     (let es = filter (\<lambda>e. fst e \<noteq> k) (entries c) @ [(k, v)]
      in c\<lparr> entries := (if length es > maxsize c then tl es else es) \<rparr>)"

text \<open>
  An \<open>OutputControl\<close>.
  \<^item> \<open>renderer\<close>: \<open>self.renderer.render(data, width=width, height=height)\<close>;
  \<^item> \<open>image_control\<close>: whether the class derives from \<open>BaseImageControl\<close>;
  \<^item> \<open>graphic\<close>: \<open>None\<close> without a graphic, otherwise what \<open>graphic.visible()\<close> gives;
  \<^item> \<open>render_calls\<close>: the number of calls of the renderer so far.
\<close>

record control =
  data :: string
  renderer :: "string \<Rightarrow> int \<Rightarrow> int \<Rightarrow> string"
  image_control :: bool
  graphic :: "bool option"
  rendered_lines :: "string list"
  format_cache :: "string list simple_cache"
  render_calls :: nat

text \<open>\<open>__init__\<close>: no lines yet and an empty cache of twenty entries.\<close>

definition OutputControl_init ::
  "string \<Rightarrow> (string \<Rightarrow> int \<Rightarrow> int \<Rightarrow> string) \<Rightarrow> bool \<Rightarrow> bool option \<Rightarrow> control" where
  "OutputControl_init d rend img gr =
     \<lparr> data = d, renderer = rend, image_control = img, graphic = gr, rendered_lines = [],
       format_cache = \<lparr> entries = [], maxsize = 20, renew_on_hit = True \<rparr>,
       render_calls = 0 \<rparr>"

text \<open>\<open>extra_keys\<close> of \<open>OutputControl\<close> and its override in \<open>BaseImageControl\<close>.\<close>

definition extra_keys :: "control \<Rightarrow> bool list" where
  "extra_keys c =
     (if image_control c
      then (case graphic c of Some visible \<Rightarrow> [visible] | None \<Rightarrow> [])
      else [])"

text \<open>\<open>result.rstrip("\n")\<close> and \<open>str.splitlines()\<close> on 8-bit characters.\<close>

definition rstrip_newline :: "string \<Rightarrow> string" where
  "rstrip_newline s = rev (dropWhile (\<lambda>c. c = LF) (rev s))"

definition line_boundary :: "char \<Rightarrow> bool" where
  "line_boundary c \<longleftrightarrow> c \<in> set [LF, CHR 0x0B, CHR 0x0C, CHR 0x1C, CHR 0x1D, CHR 0x1E, CHR 0x85]"

fun splitlines_acc :: "string \<Rightarrow> string \<Rightarrow> string list" where
  "splitlines_acc cur [] = (if cur = [] then [] else [cur])"
| "splitlines_acc cur (c # cs) =
     (if c = CR then
        (case cs of
           [] \<Rightarrow> [cur]
         | d # ds \<Rightarrow>
             if d = LF then cur # splitlines_acc [] ds
             else cur # splitlines_acc [] (d # ds))
      else if line_boundary c then cur # splitlines_acc [] cs
      else splitlines_acc (cur @ [c]) cs)"

definition splitlines :: "string \<Rightarrow> string list" where
  "splitlines s = splitlines_acc [] s"

definition render :: "int \<Rightarrow> int \<Rightarrow> control \<Rightarrow> string list \<times> control" where
  "render width height c =
     (let result = renderer c (data c) width height
      in (splitlines (rstrip_newline result), c\<lparr> render_calls := Suc (render_calls c) \<rparr>))"

definition get_rendered_lines :: "int \<Rightarrow> int \<Rightarrow> control \<Rightarrow> string list \<times> control" where
  "get_rendered_lines width height c =
     (let k = (width, extra_keys c) in
      case cache_lookup (format_cache c) k of
        Some v \<Rightarrow> (v, c\<lparr> format_cache := cache_hit (format_cache c) k \<rparr>)
      | None \<Rightarrow>
          (let (v, c1) = render width height c
           in (v, c1\<lparr> format_cache := cache_store (format_cache c1) k v \<rparr>)))"

text \<open>
  \<open>preferred_width\<close>; \<open>fragment_len\<close> stands for
  \<open>fragment_list_len(ANSI(line).__pt_formatted_text__())\<close>.
\<close>

definition preferred_width ::
  "(string \<Rightarrow> nat) \<Rightarrow> int \<Rightarrow> control \<Rightarrow> nat option \<times> control" where
  "preferred_width fragment_len max_available_width c =
     (case rendered_lines c of
        [] \<Rightarrow> (None, c)
      | l # ls \<Rightarrow> (Some (fold max (map fragment_len ls) (fragment_len l)), c))"

definition preferred_height ::
  "int \<Rightarrow> int \<Rightarrow> bool \<Rightarrow> 'p \<Rightarrow> control \<Rightarrow> nat \<times> control" where
  "preferred_height width max_available_height wrap_lines get_line_prefix c =
     (if rendered_lines c = [] then
        (let (ls, c1) = get_rendered_lines width max_available_height c;
             c2 = c1\<lparr> rendered_lines := ls \<rparr>
         in (length (rendered_lines c2), c2))
      else (length (rendered_lines c), c))"

section \<open>Observations on runs\<close>

text \<open>The attribute sets passed to \<open>termios.tcsetattr\<close> by \<open>_query_term\<close>, in order.\<close>

definition tcsetattr_calls :: "event list \<Rightarrow> tattr list" where
  "tcsetattr_calls tr = concat (map (\<lambda>e. case e of TcSetAttr t \<Rightarrow> [t] | _ \<Rightarrow> []) tr)"

text \<open>
  A process on a terminal in canonical mode, with nothing probed yet: the window size
  that the \<open>ioctl\<close> reports, the size of the output device, and what the coming reads do.
\<close>

definition example_app ::
  "(16 word \<times> 16 word \<times> 16 word \<times> 16 word) \<Rightarrow> int \<times> int \<Rightarrow> rd list \<Rightarrow> app" where
  "example_app ws sz script =
     \<lparr> have_termios_tty_fcntl = True, stdin_isatty = True,
       stdout_winsize = Some ws, output_size = sz,
       tty_attr = \<lparr> echo = True, icanon = True, vmin = 1, vtime = 0, other_attrs = [] \<rparr>,
       stdin = script, out_budget = None, trace = [], probes = 0,
       sixel_cache = None, kitty_cache = None \<rparr>"

text \<open>
  What a terminal sends for one probe: its answer to the first device-attributes
  request, its answer to the query, and its answer to the second request.
\<close>

definition answers :: "string \<Rightarrow> rd list" where
  "answers response = map Ch (ESC # ''[>0c'' @ response @ ESC # ''[>0c'')"

text \<open>
  Reading characters one at a time into a buffer until the device pattern is found in
  it: the buffer at that moment and the characters not yet read.
\<close>

fun first_match :: "string \<Rightarrow> string \<Rightarrow> (string \<times> string) option" where
  "first_match buf [] = None"
| "first_match buf (c # cs) =
     (if device_search (buf @ [c]) then Some (buf @ [c], cs)
      else first_match (buf @ [c]) cs)"

text \<open>A field of two to four hexadecimal digits.\<close>

abbreviation hex_digits_2_4 :: "string \<Rightarrow> bool" where
  "hex_digits_2_4 X \<equiv>
     set X \<subseteq> set ''0123456789ABCDEFabcdef'' \<and> 2 \<le> length X \<and> length X \<le> 4"

section \<open>Properties of the classifier\<close>

lemma csi_classes_disjoint:
  "csi_params_char c \<Longrightarrow> \<not> csi_inter_char c"
  "csi_params_char c \<Longrightarrow> \<not> csi_final_char c"
  "csi_inter_char c \<Longrightarrow> \<not> csi_final_char c"
  by (auto simp: csi_params_char_def csi_inter_char_def csi_final_char_def)

lemma takeWhile_run:
  assumes "\<forall>c\<in>set xs. P c" and "ys = [] \<or> \<not> P (hd ys)"
  shows "takeWhile P (xs @ ys) = xs" and "dropWhile P (xs @ ys) = ys"
proof -
  have "takeWhile P ys = [] \<and> dropWhile P ys = ys" using assms(2) by (cases ys) auto
  then show "takeWhile P (xs @ ys) = xs" and "dropWhile P (xs @ ys) = ys"
    using assms(1) by (induction xs) auto
qed

lemma csi_alt_complete:
  assumes ps: "\<forall>c\<in>set ps. csi_params_char c" and ins: "\<forall>c\<in>set ins. csi_inter_char c"
    and f: "csi_final_char f"
  shows "csi_alt (CHR ''['' # ps @ ins @ f # rest) =
         Some (no_groups\<lparr> csi := Some (CHR ''['' # ps @ ins @ [f]), csi_params := Some ps,
                          csi_inter := Some ins, csi_final := Some [f] \<rparr>)"
proof -
  have nf: "\<not> csi_params_char f" "\<not> csi_inter_char f"
    using f csi_classes_disjoint by blast+
  have "ins @ f # rest = [] \<or> \<not> csi_params_char (hd (ins @ f # rest))"
    using ins nf csi_classes_disjoint(1) by (cases ins) auto
  from takeWhile_run[OF ps this]
  have 1: "takeWhile csi_params_char (ps @ ins @ f # rest) = ps"
    and 2: "dropWhile csi_params_char (ps @ ins @ f # rest) = ins @ f # rest" by auto
  have "f # rest = [] \<or> \<not> csi_inter_char (hd (f # rest))" using nf by simp
  from takeWhile_run[OF ins this]
  have 3: "takeWhile csi_inter_char (ins @ f # rest) = ins"
    and 4: "dropWhile csi_inter_char (ins @ f # rest) = f # rest" by auto
  show ?thesis by (simp add: csi_alt_def 1 2 3 4 f)
qed

lemma csi_alt_sound:
  assumes "csi_alt s = Some g"
  shows "\<exists>ps ins f rest. s = CHR ''['' # ps @ ins @ f # rest
           \<and> (\<forall>c\<in>set ps. csi_params_char c) \<and> (\<forall>c\<in>set ins. csi_inter_char c)
           \<and> csi_final_char f"
proof -
  from assms obtain r where s: "s = CHR ''['' # r"
    by (auto simp: csi_alt_def split: list.splits if_splits)
  let ?ps = "takeWhile csi_params_char r" and ?r1 = "dropWhile csi_params_char r"
  let ?ins = "takeWhile csi_inter_char ?r1" and ?r2 = "dropWhile csi_inter_char ?r1"
  from assms s obtain f rest where r2: "?r2 = f # rest" and f: "csi_final_char f"
    by (auto simp: csi_alt_def Let_def split: list.splits if_splits)
  have "r = ?ps @ ?ins @ ?r2" by simp
  then have "s = CHR ''['' # ?ps @ ?ins @ f # rest" using s r2 by simp
  moreover have "\<forall>c\<in>set ?ps. csi_params_char c" by (auto dest: set_takeWhileD)
  moreover have "\<forall>c\<in>set ?ins. csi_inter_char c" by (auto dest: set_takeWhileD)
  ultimately show ?thesis using f by blast
qed

lemma csi_alt_not_bracket: "c \<noteq> CHR ''['' \<Longrightarrow> csi_alt (c # s) = None"
  by (simp add: csi_alt_def)

lemma osc_scan_round_trip:
  "LF \<notin> set p \<Longrightarrow> t = ST \<or> t = [BEL] \<Longrightarrow> string_scan osc_term_at (p @ t) = Some (p, t)"
  by (induction p) (auto simp: osc_term_at_def)

lemma apc_scan_round_trip:
  "LF \<notin> set p \<Longrightarrow> string_scan apc_term_at (p @ ST) = Some (p, ST)"
  by (induction p) (auto simp: apc_term_at_def)

lemma string_scan_sound:
  "string_scan term_at s = Some (p, t) \<Longrightarrow> \<exists>r. s = p @ r \<and> term_at r = Some t \<and> LF \<notin> set p"
proof (induction s arbitrary: p)
  case Nil
  then show ?case by simp
next
  case (Cons c cs)
  show ?case
  proof (cases "if c = LF then None else string_scan term_at cs")
    case None
    with Cons.prems show ?thesis by (auto split: option.splits)
  next
    case (Some st)
    obtain p' t' where st: "st = (p', t')" by (cases st)
    with Some Cons.prems have c: "c \<noteq> LF" and rec: "string_scan term_at cs = Some (p', t)"
      and p: "p = c # p'"
      by (auto split: if_splits)
    from Cons.IH[OF rec] c p show ?thesis by auto
  qed
qed

lemma osc_term_at_Some: "osc_term_at r = Some t \<Longrightarrow> (\<exists>b. r = ST @ b) \<or> (\<exists>b. r = BEL # b)"
  by (cases r; cases "tl r") (auto simp: osc_term_at_def split: if_splits)

lemma apc_term_at_Some: "apc_term_at r = Some t \<Longrightarrow> (\<exists>b. r = ST @ b)"
  by (cases r; cases "tl r") (auto simp: apc_term_at_def split: if_splits)

lemma osc_unterminated:
  assumes "BEL \<notin> set s" and "\<nexists>a b. s = a @ ST @ b"
  shows "string_scan osc_term_at s = None"
proof (rule ccontr)
  assume "string_scan osc_term_at s \<noteq> None"
  then obtain p t where "string_scan osc_term_at s = Some (p, t)" by auto
  from string_scan_sound[OF this] obtain r where r: "s = p @ r" "osc_term_at r = Some t" by auto
  from osc_term_at_Some[OF r(2)] r(1) assms show False by auto
qed

lemma apc_unterminated:
  assumes "\<nexists>a b. s = a @ ST @ b"
  shows "string_scan apc_term_at s = None"
proof (rule ccontr)
  assume "string_scan apc_term_at s \<noteq> None"
  then obtain p t where "string_scan apc_term_at s = Some (p, t)" by auto
  from string_scan_sound[OF this] obtain r where r: "s = p @ r" "apc_term_at r = Some t" by auto
  from apc_term_at_Some[OF r(2)] r(1) assms show False by auto
qed

lemma csi_final_char_alphabet:
  "csi_final_char f \<longleftrightarrow>
     f \<in> set ''ABCDEFGHIJKLMNOPQRSTUVWXYZabcdefghijklmnopqrstuvwxyz'' \<union> set (''@[]^_'' @ [BQUOTE] @ ''{|}~'')"
  by (auto simp: csi_final_char_def)

lemma csi_params_char_set:
  "(\<forall>c\<in>set xs. csi_params_char c) \<longleftrightarrow> set xs \<subseteq> set ''0123456789:;<=>?''"
  by (simp only: csi_params_char_def subset_eq)

lemma csi_inter_char_set:
  "(\<forall>c\<in>set xs. csi_inter_char c) \<longleftrightarrow>
     set xs \<subseteq> set (''!'' @ [DQUOTE] @ ''#$%&'' @ [SQUOTE] @ ''()*+,-./'')"
  by (simp only: csi_inter_char_def subset_eq)

lemma csi_search_iff:
  "(\<exists>g. CONTROL_RE_search (ESC # CHR ''['' # buf) = Some g
        \<and> csi_params g = Some ps \<and> csi_inter g = Some ins \<and> csi_final g = Some fs)
   \<longleftrightarrow>
   (\<exists>f rest. buf = ps @ ins @ f # rest \<and> fs = [f]
        \<and> (\<forall>c\<in>set ps. csi_params_char c) \<and> (\<forall>c\<in>set ins. csi_inter_char c)
        \<and> csi_final_char f)"
  (is "?L \<longleftrightarrow> ?R")
proof
  assume ?L
  then obtain g where g: "CONTROL_RE_search (ESC # CHR ''['' # buf) = Some g"
    and fields: "csi_params g = Some ps" "csi_inter g = Some ins" "csi_final g = Some fs"
    by blast
  have alt: "csi_alt (CHR ''['' # buf) = Some g"
  proof (cases "csi_alt (CHR ''['' # buf)")
    case None
    then have "control_alts (CHR ''['' # buf) = Some (no_groups\<lparr> fe := Some ''[''\<rparr>)"
      by (simp add: control_alts_def osc_alt_def apc_alt_def fe_alt_def fe_char_def)
    with g fields(1) show ?thesis by (auto simp: no_groups_def)
  next
    case (Some g')
    with g show ?thesis by (simp add: control_alts_def)
  qed
  from csi_alt_sound[OF alt] obtain ps' ins' f rest where
    buf: "buf = ps' @ ins' @ f # rest" and ps': "\<forall>c\<in>set ps'. csi_params_char c"
    and ins': "\<forall>c\<in>set ins'. csi_inter_char c" and f: "csi_final_char f"
    by auto
  from csi_alt_complete[OF ps' ins' f, of rest] alt buf fields
  have "ps = ps'" "ins = ins'" "fs = [f]" by auto
  with buf ps' ins' f show ?R by blast
next
  assume ?R
  then obtain f rest where buf: "buf = ps @ ins @ f # rest" and fs: "fs = [f]"
    and ps: "\<forall>c\<in>set ps. csi_params_char c" and ins: "\<forall>c\<in>set ins. csi_inter_char c"
    and f: "csi_final_char f"
    by blast
  from csi_alt_complete[OF ps ins f, of rest] buf fs
  show ?L by (simp add: control_alts_def)
qed

text \<open>
  C6, as amended.  A buffer that begins with the escape character and \<open>[\<close> is classified as
  a CSI sequence with parameters \<open>ps\<close>, intermediates \<open>ins\<close> and final \<open>fs\<close> exactly when the
  text after \<open>[\<close> is \<open>ps\<close>, a run of the bytes \<open>0-9:;<=>?\<close>, then \<open>ins\<close>, a run of the bytes
  \<open>!"#$%&'()*+,-./\<close>, then the single byte \<open>fs\<close>, which is a letter or one of
  \<open>@[]^_`{|}~\<close>.  The three alphabets are disjoint, so the two runs are the maximal ones.
  The final-byte alphabet of the code has the four bytes \<open>{|}~\<close> beside the letters and
  \<open>@[]^_`\<close> of the claim.
\<close>

theorem csi_classified_iff:
  "(\<exists>g. CONTROL_RE_search (ESC # CHR ''['' # buf) = Some g
        \<and> csi_params g = Some ps \<and> csi_inter g = Some ins \<and> csi_final g = Some fs)
   \<longleftrightarrow>
   (\<exists>f rest. buf = ps @ ins @ f # rest \<and> fs = [f]
        \<and> set ps \<subseteq> set ''0123456789:;<=>?''
        \<and> set ins \<subseteq> set (''!'' @ [DQUOTE] @ ''#$%&'' @ [SQUOTE] @ ''()*+,-./'')
        \<and> f \<in> set ''ABCDEFGHIJKLMNOPQRSTUVWXYZabcdefghijklmnopqrstuvwxyz''
              \<union> set (''@[]^_'' @ [BQUOTE] @ ''{|}~''))"
  using csi_search_iff [of buf ps ins fs]
  unfolding csi_params_char_set csi_inter_char_set csi_final_char_alphabet .

theorem csi_classified_iff_witness:
  "(\<exists>g. CONTROL_RE_search (ESC # ''[?1;2$y'') = Some g
        \<and> csi_params g = Some ''?1;2'' \<and> csi_inter g = Some ''$'' \<and> csi_final g = Some ''y'')"
proof -
  have "\<exists>f rest. ''?1;2$y'' = ''?1;2'' @ ''$'' @ f # rest \<and> ''y'' = [f]
        \<and> set ''?1;2'' \<subseteq> set ''0123456789:;<=>?''
        \<and> set ''$'' \<subseteq> set (''!'' @ [DQUOTE] @ ''#$%&'' @ [SQUOTE] @ ''()*+,-./'')
        \<and> f \<in> set ''ABCDEFGHIJKLMNOPQRSTUVWXYZabcdefghijklmnopqrstuvwxyz''
              \<union> set (''@[]^_'' @ [BQUOTE] @ ''{|}~'')"
    by simp
  then show ?thesis
    using csi_classified_iff [of "''?1;2$y''" "''?1;2''" "''$''" "''y''"] by blast
qed

text \<open>
  C6 as stated fails: \<open>~\<close> is neither a letter nor one of \<open>@[]^_`\<close>, and the buffer
  \<open>ESC [ 5 ~\<close> is classified as a CSI sequence with that final byte.
\<close>

theorem csi_final_tilde_counterexample:
  "CONTROL_RE_search (ESC # ''[5~'') =
     Some (no_groups\<lparr> csi := Some ''[5~'', csi_params := Some ''5'', csi_inter := Some [],
                      csi_final := Some ''~'' \<rparr>)
   \<and> CHR ''~'' \<notin> set ''ABCDEFGHIJKLMNOPQRSTUVWXYZabcdefghijklmnopqrstuvwxyz''
                   \<union> set (''@[]^_'' @ [BQUOTE])"
  by code_simp

text \<open>
  C5, as amended.  Classifying a well-formed response buffer gives back the embedded
  substring byte for byte:
  \<^item> CSI: parameters \<open>ps\<close> made of parameter bytes, before intermediates and a final byte;
  \<^item> OSC: a payload without a line feed, before the terminator \<open>ESC \\<close> or \<open>BEL\<close>, which
    is captured apart from the string;
  \<^item> APC: a payload without a line feed, before the terminator \<open>ESC \\<close>.

  A buffer \<open>ESC ]\<close> or \<open>ESC _\<close> whose rest holds no terminator is not classified as OSC or
  APC and has no string value; the classifier takes its first two bytes as the bare Fe
  sequence \<open>]\<close> or \<open>_\<close>.
\<close>

theorem classifier_round_trip:
  "(set ps \<subseteq> set ''0123456789:;<=>?''
      \<and> set ins \<subseteq> set (''!'' @ [DQUOTE] @ ''#$%&'' @ [SQUOTE] @ ''()*+,-./'')
      \<and> f \<in> set ''ABCDEFGHIJKLMNOPQRSTUVWXYZabcdefghijklmnopqrstuvwxyz''
            \<union> set (''@[]^_'' @ [BQUOTE] @ ''{|}~'')
     \<longrightarrow> CONTROL_RE_search (ESC # CHR ''['' # ps @ ins @ [f]) =
           Some (no_groups\<lparr> csi := Some (CHR ''['' # ps @ ins @ [f]), csi_params := Some ps,
                            csi_inter := Some ins, csi_final := Some [f] \<rparr>))
   \<and> (LF \<notin> set payload \<and> (t = ST \<or> t = [BEL])
     \<longrightarrow> CONTROL_RE_search (ESC # CHR '']'' # payload @ t) =
           Some (no_groups\<lparr> osc := Some (CHR '']'' # payload @ t),
                            osc_string := Some payload, osc_term := Some t \<rparr>))
   \<and> (LF \<notin> set payload
     \<longrightarrow> CONTROL_RE_search (ESC # CHR ''_'' # payload @ ST) =
           Some (no_groups\<lparr> apc := Some (CHR ''_'' # payload @ ST),
                            apc_string := Some payload, apc_term := Some ST \<rparr>))
   \<and> (BEL \<notin> set s \<and> (\<nexists>a b. s = a @ ST @ b)
     \<longrightarrow> CONTROL_RE_search (ESC # CHR '']'' # s) = Some (no_groups\<lparr> fe := Some '']'' \<rparr>))
   \<and> ((\<nexists>a b. s = a @ ST @ b)
     \<longrightarrow> CONTROL_RE_search (ESC # CHR ''_'' # s) = Some (no_groups\<lparr> fe := Some ''_'' \<rparr>))"
proof (intro conjI impI)
  assume "set ps \<subseteq> set ''0123456789:;<=>?''
      \<and> set ins \<subseteq> set (''!'' @ [DQUOTE] @ ''#$%&'' @ [SQUOTE] @ ''()*+,-./'')
      \<and> f \<in> set ''ABCDEFGHIJKLMNOPQRSTUVWXYZabcdefghijklmnopqrstuvwxyz''
            \<union> set (''@[]^_'' @ [BQUOTE] @ ''{|}~'')"
  then have "\<forall>c\<in>set ps. csi_params_char c" "\<forall>c\<in>set ins. csi_inter_char c" "csi_final_char f"
    unfolding csi_params_char_set csi_inter_char_set csi_final_char_alphabet by blast+
  from csi_alt_complete[OF this, of "[]"]
  show "CONTROL_RE_search (ESC # CHR ''['' # ps @ ins @ [f]) =
           Some (no_groups\<lparr> csi := Some (CHR ''['' # ps @ ins @ [f]), csi_params := Some ps,
                            csi_inter := Some ins, csi_final := Some [f] \<rparr>)"
    by (simp add: control_alts_def)
next
  assume "LF \<notin> set payload \<and> (t = ST \<or> t = [BEL])"
  then have "string_scan osc_term_at (payload @ t) = Some (payload, t)"
    using osc_scan_round_trip by blast
  then show "CONTROL_RE_search (ESC # CHR '']'' # payload @ t) =
           Some (no_groups\<lparr> osc := Some (CHR '']'' # payload @ t),
                            osc_string := Some payload, osc_term := Some t \<rparr>)"
    by (simp add: control_alts_def csi_alt_not_bracket osc_alt_def)
next
  assume "LF \<notin> set payload"
  then have "string_scan apc_term_at (payload @ ST) = Some (payload, ST)"
    by (rule apc_scan_round_trip)
  then show "CONTROL_RE_search (ESC # CHR ''_'' # payload @ ST) =
           Some (no_groups\<lparr> apc := Some (CHR ''_'' # payload @ ST),
                            apc_string := Some payload, apc_term := Some ST \<rparr>)"
    by (simp add: control_alts_def csi_alt_not_bracket osc_alt_def apc_alt_def)
next
  assume "BEL \<notin> set s \<and> (\<nexists>a b. s = a @ ST @ b)"
  then have "string_scan osc_term_at s = None"
    using osc_unterminated by blast
  then show "CONTROL_RE_search (ESC # CHR '']'' # s) = Some (no_groups\<lparr> fe := Some '']'' \<rparr>)"
    by (simp add: control_alts_def csi_alt_not_bracket osc_alt_def apc_alt_def fe_alt_def
        fe_char_def)
next
  assume "\<nexists>a b. s = a @ ST @ b"
  then have "string_scan apc_term_at s = None"
    by (rule apc_unterminated)
  then show "CONTROL_RE_search (ESC # CHR ''_'' # s) = Some (no_groups\<lparr> fe := Some ''_'' \<rparr>)"
    by (simp add: control_alts_def csi_alt_not_bracket osc_alt_def apc_alt_def fe_alt_def
        fe_char_def)
qed

lemma no_ST_in_abc: "\<nexists>a b. ''11;rgb'' = a @ ST @ b"
proof
  assume "\<exists>a b. ''11;rgb'' = a @ ST @ b"
  then obtain a b where "''11;rgb'' = a @ ST @ b" by blast
  then have "ESC \<in> set ''11;rgb''" by (metis append_Cons in_set_conv_decomp)
  then show False by simp
qed

theorem classifier_round_trip_witness:
  "CONTROL_RE_search (ESC # ''[?0;0;0S'') =
      Some (no_groups\<lparr> csi := Some ''[?0;0;0S'', csi_params := Some ''?0;0;0'',
                       csi_inter := Some [], csi_final := Some ''S'' \<rparr>)
   \<and> CONTROL_RE_search (ESC # '']11;rgb:1234/5678/9abc'' @ [BEL]) =
      Some (no_groups\<lparr> osc := Some ('']11;rgb:1234/5678/9abc'' @ [BEL]),
                       osc_string := Some ''11;rgb:1234/5678/9abc'', osc_term := Some [BEL] \<rparr>)
   \<and> CONTROL_RE_search (ESC # ''_Gi=1;OK'' @ ST) =
      Some (no_groups\<lparr> apc := Some (''_Gi=1;OK'' @ ST),
                       apc_string := Some ''Gi=1;OK'', apc_term := Some ST \<rparr>)
   \<and> CONTROL_RE_search (ESC # '']11;rgb'') = Some (no_groups\<lparr> fe := Some '']'' \<rparr>)
   \<and> CONTROL_RE_search (ESC # ''_11;rgb'') = Some (no_groups\<lparr> fe := Some ''_'' \<rparr>)"
proof -
  have 1: "set ''?0;0;0'' \<subseteq> set ''0123456789:;<=>?''
      \<and> set [] \<subseteq> set (''!'' @ [DQUOTE] @ ''#$%&'' @ [SQUOTE] @ ''()*+,-./'')
      \<and> CHR ''S'' \<in> set ''ABCDEFGHIJKLMNOPQRSTUVWXYZabcdefghijklmnopqrstuvwxyz''
            \<union> set (''@[]^_'' @ [BQUOTE] @ ''{|}~'')"
    by simp
  have 2: "LF \<notin> set ''11;rgb:1234/5678/9abc'' \<and> ([BEL] = ST \<or> [BEL] = [BEL])" by simp
  have 3: "LF \<notin> set ''Gi=1;OK''" by simp
  have 4: "BEL \<notin> set ''11;rgb'' \<and> (\<nexists>a b. ''11;rgb'' = a @ ST @ b)"
    using no_ST_in_abc by simp
  note rt = classifier_round_trip
  from 1 rt [of "''?0;0;0''" "[]" "CHR ''S''"]
  have a: "CONTROL_RE_search (ESC # CHR ''['' # ''?0;0;0'' @ [] @ ''S'') =
      Some (no_groups\<lparr> csi := Some (CHR ''['' # ''?0;0;0'' @ [] @ ''S''),
                       csi_params := Some ''?0;0;0'',
                       csi_inter := Some [], csi_final := Some ''S'' \<rparr>)" by blast
  from 2 rt [of _ _ _ "''11;rgb:1234/5678/9abc''" "[BEL]"]
  have b: "CONTROL_RE_search (ESC # CHR '']'' # ''11;rgb:1234/5678/9abc'' @ [BEL]) =
      Some (no_groups\<lparr> osc := Some (CHR '']'' # ''11;rgb:1234/5678/9abc'' @ [BEL]),
                       osc_string := Some ''11;rgb:1234/5678/9abc'', osc_term := Some [BEL] \<rparr>)"
    by blast
  from 3 rt [of _ _ _ "''Gi=1;OK''"]
  have c: "CONTROL_RE_search (ESC # CHR ''_'' # ''Gi=1;OK'' @ ST) =
      Some (no_groups\<lparr> apc := Some (CHR ''_'' # ''Gi=1;OK'' @ ST),
                       apc_string := Some ''Gi=1;OK'', apc_term := Some ST \<rparr>)" by blast
  from 4 rt [of _ _ _ _ _ "''11;rgb''"]
  have d: "CONTROL_RE_search (ESC # CHR '']'' # ''11;rgb'') = Some (no_groups\<lparr> fe := Some '']'' \<rparr>)"
    and e: "CONTROL_RE_search (ESC # CHR ''_'' # ''11;rgb'') = Some (no_groups\<lparr> fe := Some ''_'' \<rparr>)"
    by blast+
  from a b c d e show ?thesis by simp
qed

text \<open>
  C5 as stated fails twice.  An OSC payload with a line feed in it does not come back:
  the buffer is classified as the bare Fe sequence \<open>]\<close> and has no \<open>osc_string\<close>.  And a
  buffer with an unterminated OSC payload does classify, again as the Fe sequence \<open>]\<close>.
\<close>

theorem classifier_round_trip_counterexample:
  "CONTROL_RE_search (ESC # '']a'' @ [LF] @ ''b'' @ [BEL]) = Some (no_groups\<lparr> fe := Some '']'' \<rparr>)
   \<and> osc_string (no_groups\<lparr> fe := Some '']'' \<rparr>) = None
   \<and> CONTROL_RE_search (ESC # '']11;rgb:1234/5678/9abc'') \<noteq> None"
  by code_simp

section \<open>Properties of the protocol engine\<close>

lemma tcsetattr_calls_log:
  "tcsetattr_calls (trace (log e a)) =
     tcsetattr_calls (trace a) @ (case e of TcSetAttr t \<Rightarrow> [t] | _ \<Rightarrow> [])"
  by (simp add: tcsetattr_calls_def log_def)

lemma log_fields:
  "tty_attr (log e a) = tty_attr a" "stdin (log e a) = stdin a"
  "probes (log e a) = probes a" "out_budget (log e a) = out_budget a"
  by (simp_all add: log_def)

lemma out_call_quiet:
  assumes "out_call e a = (r, a')" and "\<forall>t. e \<noteq> TcSetAttr t"
  shows "tcsetattr_calls (trace a') = tcsetattr_calls (trace a)"
    and "tty_attr a' = tty_attr a" and "stdin a' = stdin a" and "r \<noteq> Hang"
    and "probes a' = probes a"
  using assms
  by (auto simp: out_call_def tcsetattr_calls_log log_fields
      split: option.splits nat.splits event.splits)

lemma write_flush_quiet:
  assumes "write_flush s a = (r, a')"
  shows "tcsetattr_calls (trace a') = tcsetattr_calls (trace a)"
    and "tty_attr a' = tty_attr a" and "stdin a' = stdin a" and "r \<noteq> Hang"
    and "probes a' = probes a"
proof -
  obtain r1 a1 where 1: "out_call (WriteRaw s) a = (r1, a1)" by (cases "out_call (WriteRaw s) a")
  note q1 = out_call_quiet[OF 1]
  show "tcsetattr_calls (trace a') = tcsetattr_calls (trace a)"
    and "tty_attr a' = tty_attr a" and "stdin a' = stdin a" and "r \<noteq> Hang"
    and "probes a' = probes a"
    using assms 1 q1 out_call_quiet[of Flush a1 r a']
    by (auto simp: write_flush_def split: res.splits)
qed

text \<open>
  The loop calls \<open>tcsetattr\<close> nowhere and leaves the terminal attributes alone; when it
  blocks, the reads that were to come are used up.
\<close>

lemma read_loop_quiet:
  assumes "read_loop q out st sent rds a = (r, a')"
  shows "tcsetattr_calls (trace a') = tcsetattr_calls (trace a) \<and> tty_attr a' = tty_attr a
         \<and> probes a' = probes a \<and> (r = Hang \<and> stdin a = rds \<longrightarrow> stdin a' = [])"
  using assms
proof (induction rds arbitrary: out st sent a)
  case Nil
  then show ?case by (auto simp: tcsetattr_calls_log log_fields)
next
  case (Cons x rs)
  let ?a1 = "log Read (a\<lparr> stdin := rs \<rparr>)"
  have a1: "tcsetattr_calls (trace ?a1) = tcsetattr_calls (trace a)" "tty_attr ?a1 = tty_attr a"
    "stdin ?a1 = rs" "probes ?a1 = probes a"
    by (simp_all add: tcsetattr_calls_def log_def)
  show ?case
  proof (cases "x = RdRaise")
    case True
    with Cons.prems a1 show ?thesis by (auto simp: Let_def)
  next
    case False
    let ?out1 = "out @ (case x of Ch c \<Rightarrow> [c] | _ \<Rightarrow> [])"
    obtain w a2 where w: "(if sent then (Ret (), ?a1) else write_flush q ?a1) = (w, a2)"
      by (cases "if sent then (Ret (), ?a1) else write_flush q ?a1")
    have a2: "tcsetattr_calls (trace a2) = tcsetattr_calls (trace a)" "tty_attr a2 = tty_attr a"
      "stdin a2 = rs" "w \<noteq> Hang" "probes a2 = probes a"
      using w a1 write_flush_quiet[of q ?a1 w a2] by (auto split: if_splits)
    from Cons.prems False w
    have body: "(r, a') =
        (case (w, a2) of
            (Exc e, a2) \<Rightarrow> (Exc e, a2)
          | (Hang, a2) \<Rightarrow> (Hang, a2)
          | (Ret u, a2) \<Rightarrow>
              if device_search ?out1 then
                if \<not> st then
                  (case write_flush QueryCodes_device a2 of
                     (Ret u, a3) \<Rightarrow> read_loop q [] True True rs a3
                   | (Exc e, a3) \<Rightarrow> (Exc e, a3)
                   | (Hang, a3) \<Rightarrow> (Hang, a3))
                else (Ret ?out1, a2)
              else read_loop q ?out1 st True rs a2)"
      by (cases x; cases w) (auto simp: Let_def)
    show ?thesis
    proof (cases w)
      case (Ret u)
      show ?thesis
      proof (cases "device_search ?out1")
        case ds: True
        show ?thesis
        proof (cases st)
          case True
          with body Ret ds a2 show ?thesis by simp
        next
          case nst: False
          obtain w3 a3 where w3: "write_flush QueryCodes_device a2 = (w3, a3)"
            by (cases "write_flush QueryCodes_device a2")
          note q3 = write_flush_quiet[OF w3]
          show ?thesis
          proof (cases w3)
            case (Ret u3)
            with body \<open>w = Ret u\<close> ds nst w3 have "read_loop q [] True True rs a3 = (r, a')"
              by simp
            from Cons.IH[OF this] q3 a2 show ?thesis by simp
          next
            case (Exc e)
            with body \<open>w = Ret u\<close> ds nst w3 q3 a2 show ?thesis by simp
          next
            case Hang
            with q3 show ?thesis by simp
          qed
        qed
      next
        case False
        with body Ret have "read_loop q ?out1 st True rs a2 = (r, a')" by simp
        from Cons.IH[OF this] a2 show ?thesis by simp
      qed
    next
      case (Exc e)
      with body a2 show ?thesis by simp
    next
      case Hang
      with a2 show ?thesis by simp
    qed
  qed
qed

lemma try_body_quiet:
  assumes "try_body q a = (r, a')"
  shows "tcsetattr_calls (trace a') = tcsetattr_calls (trace a)"
    and "probes a' = probes a"
    and "r = Hang \<Longrightarrow> stdin a' = [] \<and> tty_attr a' = setcbreak (tty_attr a)"
proof -
  let ?a1 = "log SetCbreak (a\<lparr> tty_attr := setcbreak (tty_attr a) \<rparr>)"
  have a1: "tcsetattr_calls (trace ?a1) = tcsetattr_calls (trace a)"
    "tty_attr ?a1 = setcbreak (tty_attr a)" "probes ?a1 = probes a"
    by (simp_all add: tcsetattr_calls_def log_def)
  obtain w a2 where w: "write_flush QueryCodes_device ?a1 = (w, a2)"
    by (cases "write_flush QueryCodes_device ?a1")
  note q = write_flush_quiet[OF w]
  have "tcsetattr_calls (trace a') = tcsetattr_calls (trace a) \<and> probes a' = probes a
        \<and> (r = Hang \<longrightarrow> stdin a' = [] \<and> tty_attr a' = setcbreak (tty_attr a))"
  proof (cases w)
    case (Ret u)
    with assms w have "read_loop q [] False False (stdin a2) a2 = (r, a')"
      by (simp add: try_body_def Let_def)
    from read_loop_quiet[OF this] q a1 show ?thesis by simp
  next
    case (Exc e)
    with assms w q a1 show ?thesis by (auto simp: try_body_def Let_def)
  next
    case Hang
    with q show ?thesis by simp
  qed
  then show "tcsetattr_calls (trace a') = tcsetattr_calls (trace a)"
    and "probes a' = probes a"
    and "r = Hang \<Longrightarrow> stdin a' = [] \<and> tty_attr a' = setcbreak (tty_attr a)"
    by simp_all
qed

text \<open>Every call of \<open>_query_term\<close> counts as one probe, however it ends.\<close>

lemma query_term_probes: "probes (snd (query_term q a)) = Suc (probes a)"
proof -
  let ?a = "a\<lparr> probes := Suc (probes a) \<rparr>"
  obtain w a1 where w: "try_body q (log TcGetAttr ?a) = (w, a1)"
    by (cases "try_body q (log TcGetAttr ?a)")
  from try_body_quiet(2)[OF w] have "probes a1 = Suc (probes a)" by (simp add: log_def)
  with w show ?thesis
    by (cases w) (simp_all add: query_term_def Let_def log_def)
qed

text \<open>
  A probe that never returns is one whose read blocks with nothing left to come; the
  terminal is then in cbreak mode and \<open>tcsetattr\<close> has not been called.
\<close>

lemma query_term_blocked:
  assumes "have_termios_tty_fcntl a" "stdin_isatty a" "query_term q a = (Hang, a')"
  shows "stdin a' = [] \<and> tty_attr a' = setcbreak (tty_attr a)
         \<and> tcsetattr_calls (trace a') = tcsetattr_calls (trace a)"
proof -
  let ?a = "a\<lparr> probes := Suc (probes a) \<rparr>"
  obtain w a1 where w: "try_body q (log TcGetAttr ?a) = (w, a1)"
    by (cases "try_body q (log TcGetAttr ?a)")
  from assms w have "w = Hang" "a' = a1"
    by (auto simp: query_term_def Let_def split: res.splits)
  with try_body_quiet[OF w] show ?thesis
    by (simp add: tcsetattr_calls_def log_def)
qed

text \<open>
  C2.  Take a call of \<open>_query_term\<close> that gets as far as the \<open>try\<close> statement (the modules
  are there and \<open>tcgetattr\<close> succeeded) and that ends, by returning or by raising, be it
  from a read or a write inside the loop.  Then \<open>tcsetattr\<close> was called exactly once more
  than before, with the attributes captured by \<open>tcgetattr\<close>, as the last call of all,
  and the terminal has these attributes again.
\<close>

theorem query_term_restores:
  "have_termios_tty_fcntl a \<and> stdin_isatty a \<and> query_term q a = (r, a') \<and> r \<noteq> Hang
   \<longrightarrow> tcsetattr_calls (trace a') = tcsetattr_calls (trace a) @ [tty_attr a]
       \<and> tty_attr a' = tty_attr a
       \<and> last (trace a') = TcSetAttr (tty_attr a)"
proof (intro impI, elim conjE)
  assume h: "have_termios_tty_fcntl a" "stdin_isatty a" and qt: "query_term q a = (r, a')"
    and r: "r \<noteq> Hang"
  let ?a = "a\<lparr> probes := Suc (probes a) \<rparr>"
  obtain w a1 where w: "try_body q (log TcGetAttr ?a) = (w, a1)"
    by (cases "try_body q (log TcGetAttr ?a)")
  note tb = try_body_quiet(1)[OF w]
  let ?a2 = "log (TcSetAttr (tty_attr a)) (a1\<lparr> tty_attr := tty_attr a \<rparr>)"
  from qt h w r have a': "a' = ?a2"
    by (auto simp: query_term_def Let_def split: res.splits)
  have "tcsetattr_calls (trace ?a2) = tcsetattr_calls (trace a1) @ [tty_attr a]"
    by (simp add: tcsetattr_calls_def log_def)
  moreover have "tcsetattr_calls (trace a1) = tcsetattr_calls (trace a)"
    using tb by (simp add: tcsetattr_calls_def log_def)
  moreover have "tty_attr ?a2 = tty_attr a" "last (trace ?a2) = TcSetAttr (tty_attr a)"
    by (simp_all add: log_def)
  ultimately show "tcsetattr_calls (trace a') = tcsetattr_calls (trace a) @ [tty_attr a]
       \<and> tty_attr a' = tty_attr a
       \<and> last (trace a') = TcSetAttr (tty_attr a)"
    using a' by simp
qed

text \<open>
  The theorem at a run in which the second read of the loop raises.
\<close>

theorem query_term_restores_witness:
  "fst (query_term QueryCodes_sixel (example_app (24, 80, 0, 0) (24, 80) [Ch ESC, RdRaise]))
     = Exc OSError
   \<and> tcsetattr_calls
       (trace (snd (query_term QueryCodes_sixel
                      (example_app (24, 80, 0, 0) (24, 80) [Ch ESC, RdRaise]))))
     = [\<lparr> echo = True, icanon = True, vmin = 1, vtime = 0, other_attrs = [] \<rparr>]
   \<and> tty_attr (snd (query_term QueryCodes_sixel
                      (example_app (24, 80, 0, 0) (24, 80) [Ch ESC, RdRaise])))
     = \<lparr> echo = True, icanon = True, vmin = 1, vtime = 0, other_attrs = [] \<rparr>"
proof -
  let ?a = "example_app (24, 80, 0, 0) (24, 80) [Ch ESC, RdRaise]"
  have r: "fst (query_term QueryCodes_sixel ?a) = Exc OSError" by code_simp
  have h1: "have_termios_tty_fcntl ?a \<and> stdin_isatty ?a" by (simp add: example_app_def)
  have h2: "query_term QueryCodes_sixel ?a
               = (fst (query_term QueryCodes_sixel ?a), snd (query_term QueryCodes_sixel ?a))"
    by simp
  have h3: "fst (query_term QueryCodes_sixel ?a) \<noteq> Hang" using r by simp
  from h1 h2 h3
  have h: "have_termios_tty_fcntl ?a \<and> stdin_isatty ?a
           \<and> query_term QueryCodes_sixel ?a
               = (fst (query_term QueryCodes_sixel ?a), snd (query_term QueryCodes_sixel ?a))
           \<and> fst (query_term QueryCodes_sixel ?a) \<noteq> Hang"
    by blast
  have t: "tty_attr ?a = \<lparr> echo = True, icanon = True, vmin = 1, vtime = 0, other_attrs = [] \<rparr>"
    "tcsetattr_calls (trace ?a) = []"
    by (simp_all add: example_app_def tcsetattr_calls_def)
  from h query_term_restores [of ?a QueryCodes_sixel "fst (query_term QueryCodes_sixel ?a)"
      "snd (query_term QueryCodes_sixel ?a)"]
  show ?thesis using r t by simp
qed

subsection \<open>A terminal that answers\<close>

lemma write_flush_unlimited:
  "out_budget a = None \<Longrightarrow>
   write_flush s a = (Ret (), a\<lparr> trace := trace a @ [WriteRaw s, Flush] \<rparr>)"
  by (simp add: write_flush_def out_call_def log_def)

text \<open>
  After the first delimiter the loop returns the buffer as soon as the device pattern
  is found in it.
\<close>

lemma read_loop_second:
  assumes "out_budget a = None" and "first_match out s = Some (o1, s1)"
  shows "\<exists>tr. read_loop q out True True (map Ch s @ rest) a =
           (Ret o1, a\<lparr> stdin := map Ch s1 @ rest, trace := tr \<rparr>)"
  using assms
proof (induction s arbitrary: out a)
  case Nil
  then show ?case by simp
next
  case (Cons c cs)
  let ?a1 = "log Read (a\<lparr> stdin := map Ch cs @ rest \<rparr>)"
  show ?case
  proof (cases "device_search (out @ [c])")
    case True
    with Cons.prems show ?thesis by (auto simp: Let_def log_def)
  next
    case False
    with Cons.prems have fm: "first_match (out @ [c]) cs = Some (o1, s1)" by simp
    have ob: "out_budget ?a1 = None" using Cons.prems(1) by (simp add: log_def)
    from Cons.IH[OF ob fm] obtain tr where
      "read_loop q (out @ [c]) True True (map Ch cs @ rest) ?a1 =
         (Ret o1, ?a1\<lparr> stdin := map Ch s1 @ rest, trace := tr \<rparr>)" by blast
    with False show ?thesis by (auto simp: Let_def log_def)
  qed
qed

text \<open>
  Before the first delimiter the loop reads up to the first match, sends the query on
  the way and the second delimiter at the match, and goes on with an empty buffer.
\<close>

lemma read_loop_first:
  assumes "out_budget a = None" and "first_match out s = Some (o1, s1)"
  shows "\<exists>tr. read_loop q out False sent (map Ch s @ rest) a =
           read_loop q [] True True (map Ch s1 @ rest)
             (a\<lparr> stdin := map Ch s1 @ rest, trace := tr \<rparr>)"
  using assms
proof (induction s arbitrary: out a sent)
  case Nil
  then show ?case by simp
next
  case (Cons c cs)
  let ?a1 = "log Read (a\<lparr> stdin := map Ch cs @ rest \<rparr>)"
  have ob1: "out_budget ?a1 = None" using Cons.prems(1) by (simp add: log_def)
  obtain a2 where a2: "(if sent then (Ret (), ?a1) else write_flush q ?a1) = (Ret (), a2)"
    and a2_eq: "a2 = a\<lparr> stdin := map Ch cs @ rest, trace := trace a2 \<rparr>"
    and ob2: "out_budget a2 = None"
    using ob1 Cons.prems(1) by (cases sent) (auto simp: write_flush_unlimited log_def)
  show ?case
  proof (cases "device_search (out @ [c])")
    case True
    with Cons.prems have s1: "s1 = cs" by simp
    have "write_flush QueryCodes_device a2 =
            (Ret (), a2\<lparr> trace := trace a2 @ [WriteRaw QueryCodes_device, Flush] \<rparr>)"
      using ob2 by (rule write_flush_unlimited)
    with True a2 have "read_loop q out False sent (map Ch (c # cs) @ rest) a =
        read_loop q [] True True (map Ch cs @ rest)
          (a2\<lparr> trace := trace a2 @ [WriteRaw QueryCodes_device, Flush] \<rparr>)"
      by (simp add: Let_def)
    moreover have "a2\<lparr> trace := trace a2 @ [WriteRaw QueryCodes_device, Flush] \<rparr> =
        a\<lparr> stdin := map Ch cs @ rest, trace := trace a2 @ [WriteRaw QueryCodes_device, Flush] \<rparr>"
      by (subst a2_eq) simp
    ultimately show ?thesis using s1 by auto
  next
    case False
    with Cons.prems have fm: "first_match (out @ [c]) cs = Some (o1, s1)" by simp
    from Cons.IH[OF ob2 fm, of True] obtain tr where
      "read_loop q (out @ [c]) False True (map Ch cs @ rest) a2 =
         read_loop q [] True True (map Ch s1 @ rest)
           (a2\<lparr> stdin := map Ch s1 @ rest, trace := tr \<rparr>)" by blast
    moreover have "a2\<lparr> stdin := map Ch s1 @ rest, trace := tr \<rparr> =
        a\<lparr> stdin := map Ch s1 @ rest, trace := tr \<rparr>"
      by (subst a2_eq) simp
    moreover from False a2 have "read_loop q out False sent (map Ch (c # cs) @ rest) a =
        read_loop q (out @ [c]) False True (map Ch cs @ rest) a2"
      by (simp add: Let_def)
    ultimately show ?thesis by auto
  qed
qed

text \<open>
  A probe on a terminal that answers: the reads to come begin with characters in which
  the device pattern is found once, at \<open>s1\<close>, and once more after that, at \<open>s2\<close>, with the
  buffer \<open>o2\<close> read in between.  The probe returns the classification of \<open>o2\<close> without its
  delimiter, and of the state it changes the reads to come, the trace and the count.
\<close>

lemma query_term_answered:
  assumes "have_termios_tty_fcntl a" and "stdin_isatty a" and "out_budget a = None"
    and "stdin a = map Ch s @ rest"
    and "first_match [] s = Some (o1, s1)" and "first_match [] s1 = Some (o2, s2)"
  shows "\<exists>tr. query_term q a =
           (Ret (CONTROL_RE_search (device_sub o2)),
            a\<lparr> stdin := map Ch s2 @ rest, trace := tr, probes := Suc (probes a) \<rparr>)"
proof -
  let ?a = "a\<lparr> probes := Suc (probes a) \<rparr>"
  let ?b = "log SetCbreak ((log TcGetAttr ?a)\<lparr> tty_attr := setcbreak (tty_attr a) \<rparr>)"
  let ?c = "?b\<lparr> trace := trace ?b @ [WriteRaw QueryCodes_device, Flush] \<rparr>"
  have obb: "out_budget ?b = None" using assms(3) by (simp add: log_def)
  have wf: "write_flush QueryCodes_device ?b = (Ret (), ?c)"
    using obb by (rule write_flush_unlimited)
  have obc: "out_budget ?c = None" using assms(3) by (simp add: log_def)
  have stc: "stdin ?c = map Ch s @ rest" using assms(4) by (simp add: log_def)
  from read_loop_first[OF obc assms(5), of q False rest] obtain tr1 where
    1: "read_loop q [] False False (map Ch s @ rest) ?c =
          read_loop q [] True True (map Ch s1 @ rest)
            (?c\<lparr> stdin := map Ch s1 @ rest, trace := tr1 \<rparr>)" by blast
  let ?d = "?c\<lparr> stdin := map Ch s1 @ rest, trace := tr1 \<rparr>"
  have obd: "out_budget ?d = None" using assms(3) by (simp add: log_def)
  from read_loop_second[OF obd assms(6), of q rest] obtain tr2 where
    2: "read_loop q [] True True (map Ch s1 @ rest) ?d =
          (Ret o2, ?d\<lparr> stdin := map Ch s2 @ rest, trace := tr2 \<rparr>)" by blast
  have tb: "try_body q (log TcGetAttr ?a) =
          (Ret o2, ?d\<lparr> stdin := map Ch s2 @ rest, trace := tr2 \<rparr>)"
    using wf stc 1 2 by (simp add: try_body_def Let_def log_def)
  have "query_term q a =
          (Ret (CONTROL_RE_search (device_sub o2)),
           log (TcSetAttr (tty_attr a))
             (?d\<lparr> stdin := map Ch s2 @ rest, trace := tr2, tty_attr := tty_attr a \<rparr>))"
    using assms(1,2) tb by (simp add: query_term_def Let_def)
  moreover have "log (TcSetAttr (tty_attr a))
             (?d\<lparr> stdin := map Ch s2 @ rest, trace := tr2, tty_attr := tty_attr a \<rparr>) =
           a\<lparr> stdin := map Ch s2 @ rest, trace := tr2 @ [TcSetAttr (tty_attr a)],
              probes := Suc (probes a) \<rparr>"
    by (cases a) (simp add: log_def)
  ultimately show ?thesis by auto
qed

text \<open>What \<open>answers\<close> holds: the delimiter, then the response and the delimiter.\<close>

lemma first_match_delimiter:
  "first_match [] (ESC # ''[>0c'' @ s) = Some (ESC # ''[>0c'', s)"
  by (simp add: device_match_at_def is_digit_def)

section \<open>Properties of the capability accessors\<close>

text \<open>
  A probe of the example process when the terminal answers the query with \<open>response\<close>,
  the delimiter being found only once the whole of the second answer has been read.
\<close>

lemma probe_answered:
  assumes fm: "first_match [] (response @ ESC # ''[>0c'') = Some (response @ ESC # ''[>0c'', [])"
  shows "\<exists>tr. query_term q (example_app ws sz (answers response @ rest)) =
           (Ret (CONTROL_RE_search (device_sub (response @ ESC # ''[>0c''))),
            (example_app ws sz rest)\<lparr> trace := tr, probes := 1 \<rparr>)"
proof -
  let ?a = "example_app ws sz (answers response @ rest)"
  have h: "have_termios_tty_fcntl ?a" "stdin_isatty ?a" "out_budget ?a = None"
    "stdin ?a = map Ch (ESC # ''[>0c'' @ response @ ESC # ''[>0c'') @ rest"
    by (simp_all add: example_app_def answers_def)
  from query_term_answered[OF h first_match_delimiter fm, of q]
  obtain tr where "query_term q ?a =
      (Ret (CONTROL_RE_search (device_sub (response @ ESC # ''[>0c''))),
       ?a\<lparr> stdin := map Ch [] @ rest, trace := tr, probes := Suc (probes ?a) \<rparr>)" by blast
  moreover have "?a\<lparr> stdin := map Ch [] @ rest, trace := tr, probes := Suc (probes ?a) \<rparr> =
      (example_app ws sz rest)\<lparr> trace := tr, probes := 1 \<rparr>"
    by (simp add: example_app_def)
  ultimately show ?thesis by auto
qed

text \<open>
  Whatever numbers a matching answer to the pixel-dimension probe carries,
  \<open>term_size_px\<close> takes the truth values of the two tests for its result.
\<close>

lemma term_size_result_matched:
  assumes "csi_params g = Some ps" and "pixel_dimensions_match ps = Some values"
  shows "term_size_result px py (Some g) = Ret (1, 1)"
proof -
  from assms(2) obtain y x where "values = [(''y'', y), (''x'', x)]"
    by (auto simp: pixel_dimensions_match_def Let_def split: if_splits)
  with assms show ?thesis by (simp add: term_size_result_def)
qed

text \<open>
  C4, the code at a failing input.  The \<open>ioctl\<close> reports zero pixels and the terminal
  answers the probe with \<open>ESC [ 4 ; 600 ; 800 t\<close>, height 600 and width 800.  The pattern
  parses the two numbers, and \<open>term_size_px\<close> returns \<open>(1, 1)\<close>.
\<close>

theorem term_size_px_probe_value:
  "fst (term_size_px (example_app (24, 80, 0, 0) (24, 80) (answers (ESC # ''[4;600;800t''))))
     = Ret (1, 1)
   \<and> pixel_dimensions_match ''4;600;800'' = Some [(''y'', ''600''), (''x'', ''800'')]"
proof -
  let ?a = "example_app (24, 80, 0, 0) (24, 80) (answers (ESC # ''[4;600;800t''))"
  have tio: "tiocgwnsz ?a = Ret (24, 80, 0, 0)"
    by (simp add: tiocgwnsz_def example_app_def)
  have fm: "first_match [] ((ESC # ''[4;600;800t'') @ ESC # ''[>0c'')
              = Some ((ESC # ''[4;600;800t'') @ ESC # ''[>0c'', [])"
    by code_simp
  from probe_answered[OF fm, of QueryCodes_pixel_dimensions "(24, 80, 0, 0)" "(24, 80)" "[]"]
  obtain tr where qt: "query_term QueryCodes_pixel_dimensions ?a =
      (Ret (CONTROL_RE_search (device_sub ((ESC # ''[4;600;800t'') @ ESC # ''[>0c''))),
       (example_app (24, 80, 0, 0) (24, 80) [])\<lparr> trace := tr, probes := 1 \<rparr>)"
    by auto
  have res: "term_size_result 0 0
      (CONTROL_RE_search (device_sub ((ESC # ''[4;600;800t'') @ ESC # ''[>0c''))) = Ret (1, 1)"
    by code_simp
  have pm: "pixel_dimensions_match ''4;600;800'' = Some [(''y'', ''600''), (''x'', ''800'')]"
    by code_simp
  from tio qt res pm show ?thesis by (simp add: term_size_px_def)
qed

text \<open>
  C10.  With \<open>(px, py)\<close> the value of \<open>term_size_px\<close> and \<open>(rows, cols)\<close> the size of the
  output device, \<open>char_size_px\<close> takes the branch of the guess \<open>(10, 22)\<close> exactly when
  \<open>px\<close> is zero; otherwise it divides without a guard: it returns
  \<open>(px // cols, py // rows)\<close> when both counts are nonzero and raises
  \<open>ZeroDivisionError\<close> when one of them is zero.
\<close>

theorem char_size_px_cases:
  "term_size_px a = (Ret (px, py), a1) \<and> output_size a1 = (rows, cols) \<longrightarrow>
     (px = 0 \<longrightarrow> char_size_px a = (Ret (10, 22), a1))
   \<and> (px \<noteq> 0 \<and> cols \<noteq> 0 \<and> rows \<noteq> 0 \<longrightarrow>
        char_size_px a = (Ret (px div cols, py div rows), a1))
   \<and> (px \<noteq> 0 \<and> (cols = 0 \<or> rows = 0) \<longrightarrow>
        char_size_px a = (Exc ZeroDivisionError, a1))"
  by (auto simp: char_size_px_def)

text \<open>
  The three cases: no pixel size from a process without the three modules; 800 by 600
  pixels on 80 columns and 24 rows; the same pixels on an output device of no columns.
\<close>

theorem char_size_px_cases_witness:
  "fst (char_size_px ((example_app (24, 80, 800, 600) (24, 80) [])
                        \<lparr> have_termios_tty_fcntl := False \<rparr>)) = Ret (10, 22)
   \<and> fst (char_size_px (example_app (24, 80, 800, 600) (24, 80) [])) = Ret (10, 25)
   \<and> fst (char_size_px (example_app (24, 80, 800, 600) (24, 0) [])) = Exc ZeroDivisionError"
proof -
  let ?a = "example_app (24, 80, 800, 600) (24, 80) []"
  let ?b = "example_app (24, 80, 800, 600) (24, 0) []"
  let ?c = "?a\<lparr> have_termios_tty_fcntl := False \<rparr>"
  let ?c1 = "?c\<lparr> probes := 1 \<rparr>"
  have a: "term_size_px ?a = (Ret (800, 600), ?a) \<and> output_size ?a = (24, 80)"
    by (simp add: term_size_px_def tiocgwnsz_def example_app_def)
  have b: "term_size_px ?b = (Ret (800, 600), ?b) \<and> output_size ?b = (24, 0)"
    by (simp add: term_size_px_def tiocgwnsz_def example_app_def)
  have c: "term_size_px ?c = (Ret (0, 0), ?c1) \<and> output_size ?c1 = (24, 80)"
    by (simp add: term_size_px_def tiocgwnsz_def example_app_def query_term_def
        term_size_result_def)
  from a char_size_px_cases [of ?a 800 600 ?a 24 80]
  have 1: "char_size_px ?a = (Ret (800 div 80, 600 div 24), ?a)" by simp
  from b char_size_px_cases [of ?b 800 600 ?b 24 0]
  have 2: "char_size_px ?b = (Exc ZeroDivisionError, ?b)" by simp
  from c char_size_px_cases [of ?c 0 0 ?c1 24 80]
  have 3: "char_size_px ?c = (Ret (10, 22), ?c1)" by simp
  from 1 2 3 show ?thesis by simp
qed

lemma sixel_result_True_iff:
  "sixel_result result = Ret True \<longleftrightarrow>
     (\<exists>g ps. result = Some g \<and> csi_params g = Some ps
        \<and> 3 \<le> length (sixel_findall ps) \<and> int_of_digits (sixel_findall ps ! 1) = 0)"
  by (auto simp: sixel_result_def Let_def split: option.splits)

lemma has_sixel_graphics_uncached:
  assumes "sixel_cache a = None" and "query_term QueryCodes_sixel a = (Ret result, a1)"
  shows "fst (has_sixel_graphics a) = sixel_result result"
  using assms
  by (cases "sixel_result result")
     (simp_all add: has_sixel_graphics_def has_sixel_graphics_body_def)

text \<open>
  C7, as amended.  On a first access whose probe returns, \<open>has_sixel_graphics\<close> is true
  if and only if the response is classified with CSI parameters that hold at least three
  runs of digits, the second of which has the value zero.  For the parameters \<open>0;0;0\<close> it
  is true and for \<open>0;1;0\<close> it is false.  When the response is not classified at all, it
  returns false.
\<close>

theorem has_sixel_graphics_iff:
  "sixel_cache a = None \<and> query_term QueryCodes_sixel a = (Ret result, a1) \<longrightarrow>
     (fst (has_sixel_graphics a) = Ret True \<longleftrightarrow>
        (\<exists>g ps. result = Some g \<and> csi_params g = Some ps
           \<and> 3 \<le> length (sixel_findall ps) \<and> int_of_digits (sixel_findall ps ! 1) = 0))
   \<and> (\<forall>g. result = Some g \<and> csi_params g = Some ''0;0;0''
          \<longrightarrow> fst (has_sixel_graphics a) = Ret True)
   \<and> (\<forall>g. result = Some g \<and> csi_params g = Some ''0;1;0''
          \<longrightarrow> fst (has_sixel_graphics a) = Ret False)
   \<and> (result = None \<longrightarrow> fst (has_sixel_graphics a) = Ret False)"
proof (intro impI, elim conjE)
  assume h: "sixel_cache a = None" "query_term QueryCodes_sixel a = (Ret result, a1)"
  note eq = has_sixel_graphics_uncached[OF h]
  have f0: "sixel_findall ''0;0;0'' = [''0'', ''0'', ''0'']"
    and f1: "sixel_findall ''0;1;0'' = [''0'', ''1'', ''0'']"
    by (simp_all add: sixel_findall_def is_digit_def)
  have i0: "int_of_digits ''0'' = 0" and i1: "int_of_digits ''1'' = 1"
    by (simp_all add: int_of_digits_def)
  show "(fst (has_sixel_graphics a) = Ret True \<longleftrightarrow>
        (\<exists>g ps. result = Some g \<and> csi_params g = Some ps
           \<and> 3 \<le> length (sixel_findall ps) \<and> int_of_digits (sixel_findall ps ! 1) = 0))
   \<and> (\<forall>g. result = Some g \<and> csi_params g = Some ''0;0;0''
          \<longrightarrow> fst (has_sixel_graphics a) = Ret True)
   \<and> (\<forall>g. result = Some g \<and> csi_params g = Some ''0;1;0''
          \<longrightarrow> fst (has_sixel_graphics a) = Ret False)
   \<and> (result = None \<longrightarrow> fst (has_sixel_graphics a) = Ret False)"
    unfolding eq
    by (intro conjI allI impI sixel_result_True_iff)
       (auto simp: sixel_result_def Let_def f0 f1 i0 i1)
qed

text \<open>
  The theorem on a terminal that answers \<open>ESC [ ? 0 ; 0 ; 0 S\<close>, and on one that gives no
  answer to the query.
\<close>

theorem has_sixel_graphics_iff_witness:
  "fst (has_sixel_graphics (example_app (24, 80, 0, 0) (24, 80) (answers (ESC # ''[?0;0;0S''))))
     = Ret True
   \<and> fst (has_sixel_graphics (example_app (24, 80, 0, 0) (24, 80) (answers [])))
     = Ret False"
proof -
  let ?a = "example_app (24, 80, 0, 0) (24, 80) (answers (ESC # ''[?0;0;0S''))"
  let ?b = "example_app (24, 80, 0, 0) (24, 80) (answers [])"
  have fma: "first_match [] ((ESC # ''[?0;0;0S'') @ ESC # ''[>0c'')
              = Some ((ESC # ''[?0;0;0S'') @ ESC # ''[>0c'', [])"
    by code_simp
  have fmb: "first_match [] ([] @ ESC # ''[>0c'') = Some ([] @ ESC # ''[>0c'', [])"
    by code_simp
  have ca: "CONTROL_RE_search (device_sub ((ESC # ''[?0;0;0S'') @ ESC # ''[>0c'')) =
      Some (no_groups\<lparr> csi := Some ''[?0;0;0S'', csi_params := Some ''?0;0;0'',
                       csi_inter := Some [], csi_final := Some ''S'' \<rparr>)"
    by code_simp
  have cb: "CONTROL_RE_search (device_sub ([] @ ESC # ''[>0c'')) = None"
    by code_simp
  from probe_answered[OF fma, of QueryCodes_sixel "(24, 80, 0, 0)" "(24, 80)" "[]"] ca
  obtain tra where qa: "query_term QueryCodes_sixel ?a =
      (Ret (Some (no_groups\<lparr> csi := Some ''[?0;0;0S'', csi_params := Some ''?0;0;0'',
                       csi_inter := Some [], csi_final := Some ''S'' \<rparr>)),
       (example_app (24, 80, 0, 0) (24, 80) [])\<lparr> trace := tra, probes := 1 \<rparr>)"
    by auto
  from probe_answered[OF fmb, of QueryCodes_sixel "(24, 80, 0, 0)" "(24, 80)" "[]"] cb
  obtain trb where qb: "query_term QueryCodes_sixel ?b =
      (Ret None, (example_app (24, 80, 0, 0) (24, 80) [])\<lparr> trace := trb, probes := 1 \<rparr>)"
    by auto
  have na: "sixel_cache ?a = None" and nb: "sixel_cache ?b = None"
    by (simp_all add: example_app_def)
  have runs: "3 \<le> length (sixel_findall ''?0;0;0'')
              \<and> int_of_digits (sixel_findall ''?0;0;0'' ! 1) = 0"
    by code_simp
  from na qa has_sixel_graphics_iff [of ?a _ "(example_app (24, 80, 0, 0) (24, 80) [])\<lparr> trace := tra, probes := 1 \<rparr>"]
  have 1: "fst (has_sixel_graphics ?a) = Ret True"
    using runs by (simp add: no_groups_def)
  from nb qb has_sixel_graphics_iff [of ?b None "(example_app (24, 80, 0, 0) (24, 80) [])\<lparr> trace := trb, probes := 1 \<rparr>"]
  have 2: "fst (has_sixel_graphics ?b) = Ret False" by simp
  from 1 2 show ?thesis by simp
qed

text \<open>
  C7 as stated fails: the answer \<open>ESC [ 0 ; 0 S\<close> is classified with the CSI parameters
  \<open>0;0\<close>, whose second number is zero, and \<open>has_sixel_graphics\<close> is false.
\<close>

theorem has_sixel_graphics_counterexample:
  "fst (has_sixel_graphics (example_app (24, 80, 0, 0) (24, 80) (answers (ESC # ''[0;0S''))))
     = Ret False
   \<and> CONTROL_RE_search (ESC # ''[0;0S'') =
       Some (no_groups\<lparr> csi := Some ''[0;0S'', csi_params := Some ''0;0'',
                        csi_inter := Some [], csi_final := Some ''S'' \<rparr>)
   \<and> map int_of_digits (sixel_findall ''0;0'') = [0, 0]"
proof -
  let ?a = "example_app (24, 80, 0, 0) (24, 80) (answers (ESC # ''[0;0S''))"
  have fm: "first_match [] ((ESC # ''[0;0S'') @ ESC # ''[>0c'')
              = Some ((ESC # ''[0;0S'') @ ESC # ''[>0c'', [])"
    by code_simp
  from probe_answered[OF fm, of QueryCodes_sixel "(24, 80, 0, 0)" "(24, 80)" "[]"]
  obtain tr where q: "query_term QueryCodes_sixel ?a =
      (Ret (CONTROL_RE_search (device_sub ((ESC # ''[0;0S'') @ ESC # ''[>0c''))),
       (example_app (24, 80, 0, 0) (24, 80) [])\<lparr> trace := tr, probes := 1 \<rparr>)"
    by auto
  have n: "sixel_cache ?a = None" by (simp add: example_app_def)
  have r: "sixel_result (CONTROL_RE_search (device_sub ((ESC # ''[0;0S'') @ ESC # ''[>0c'')))
             = Ret False"
    by code_simp
  have 1: "fst (has_sixel_graphics ?a) = Ret False"
    using has_sixel_graphics_uncached[OF n q] r by simp
  have 2: "CONTROL_RE_search (ESC # ''[0;0S'') =
       Some (no_groups\<lparr> csi := Some ''[0;0S'', csi_params := Some ''0;0'',
                        csi_inter := Some [], csi_final := Some ''S'' \<rparr>)
   \<and> map int_of_digits (sixel_findall ''0;0'') = [0, 0]"
    by code_simp
  from 1 2 show ?thesis by simp
qed

subsection \<open>The background colour\<close>

lemma is_hex_set:
  "(\<forall>c\<in>set xs. is_hex c) \<longleftrightarrow> set xs \<subseteq> set ''0123456789ABCDEFabcdef''"
  by (simp only: is_hex_def subset_eq)

lemma hex_field_props:
  "\<forall>c\<in>set (hex_field s). is_hex c" "length (hex_field s) \<le> 4"
  "s = hex_field s @ drop (length (hex_field s)) s"
proof -
  show "\<forall>c\<in>set (hex_field s). is_hex c"
    by (auto simp: hex_field_def dest: set_takeWhileD)
  have "length (takeWhile is_hex (take 4 s)) \<le> length (take 4 s)"
    by (rule length_takeWhile_le)
  then show "length (hex_field s) \<le> 4" by (simp add: hex_field_def)
  have "take (length (takeWhile is_hex (take 4 s))) (take 4 s) = takeWhile is_hex (take 4 s)"
    by (metis append_eq_conv_conj takeWhile_dropWhile_id)
  moreover have "length (takeWhile is_hex (take 4 s)) \<le> 4"
    using \<open>length (takeWhile is_hex (take 4 s)) \<le> length (take 4 s)\<close> by simp
  then have "take (length (takeWhile is_hex (take 4 s))) (take 4 s)
      = take (length (takeWhile is_hex (take 4 s))) s"
    by (simp add: min_def)
  ultimately have "take (length (hex_field s)) s = hex_field s" by (simp add: hex_field_def)
  then show "s = hex_field s @ drop (length (hex_field s)) s"
    by (metis append_take_drop_id)
qed

lemma hex_field_extends:
  assumes "\<forall>c\<in>set X. is_hex c" and "length X \<le> 4"
  shows "\<exists>Y. hex_field (X @ rest) = X @ Y"
proof -
  have "take 4 (X @ rest) = X @ take (4 - length X) rest" using assms(2) by simp
  then have "hex_field (X @ rest) = X @ takeWhile is_hex (take (4 - length X) rest)"
    using assms(1) by (simp add: hex_field_def)
  then show ?thesis by blast
qed

lemma hex_field_exact:
  assumes "\<forall>c\<in>set X. is_hex c" and "length X \<le> 4" and "\<not> is_hex d"
  shows "hex_field (X @ d # rest) = X"
proof -
  have "take 4 (X @ d # rest) = X @ take (4 - length X) (d # rest)" using assms(2) by simp
  moreover have "takeWhile is_hex (take (4 - length X) (d # rest)) = []"
    using assms(3) by (cases "4 - length X") simp_all
  ultimately show ?thesis using assms(1) by (simp add: hex_field_def)
qed

lemma slash_not_hex: "\<not> is_hex (CHR ''/'')"
  by (simp add: is_hex_def)

text \<open>The pattern matches a payload exactly when the payload begins as the pattern says.\<close>

lemma background_color_match_complete:
  assumes R: "\<forall>c\<in>set R. is_hex c" "2 \<le> length R" "length R \<le> 4"
    and G: "\<forall>c\<in>set G. is_hex c" "2 \<le> length G" "length G \<le> 4"
    and B: "\<forall>c\<in>set B. is_hex c" "2 \<le> length B" "length B \<le> 4"
  shows "\<exists>Y. background_color_match (''11;rgb:'' @ R @ ''/'' @ G @ ''/'' @ B @ rest)
           = Some [(''r'', R), (''g'', G), (''b'', B @ Y)]"
proof -
  let ?p = "''11;rgb:'' @ R @ ''/'' @ G @ ''/'' @ B @ rest"
  have s1: "drop 7 ?p = R @ CHR ''/'' # (G @ ''/'' @ B @ rest)" by simp
  have r: "hex_field (R @ CHR ''/'' # (G @ ''/'' @ B @ rest)) = R"
    using R slash_not_hex by (intro hex_field_exact) auto
  have g: "hex_field (G @ CHR ''/'' # (B @ rest)) = G"
    using G slash_not_hex by (intro hex_field_exact) auto
  from hex_field_extends[OF B(1) B(3), of rest] obtain Y where b: "hex_field (B @ rest) = B @ Y"
    by blast
  have "take 7 ?p = ''11;rgb:''" by simp
  then show ?thesis
    using s1 r g b R(2) G(2) B(2)
    by (simp add: background_color_match_def Let_def)
qed

lemma background_color_match_sound:
  assumes "background_color_match p = Some colors"
  shows "\<exists>R G B rest. p = ''11;rgb:'' @ R @ ''/'' @ G @ ''/'' @ B @ rest
           \<and> (\<forall>c\<in>set R. is_hex c) \<and> 2 \<le> length R \<and> length R \<le> 4
           \<and> (\<forall>c\<in>set G. is_hex c) \<and> 2 \<le> length G \<and> length G \<le> 4
           \<and> (\<forall>c\<in>set B. is_hex c) \<and> 2 \<le> length B \<and> length B \<le> 4"
proof -
  let ?s1 = "drop 7 p"
  let ?R = "hex_field ?s1"
  let ?s2 = "drop (length ?R) ?s1"
  let ?s3 = "drop 1 ?s2"
  let ?G = "hex_field ?s3"
  let ?s4 = "drop (length ?G) ?s3"
  let ?s5 = "drop 1 ?s4"
  let ?B = "hex_field ?s5"
  from assms have pre: "take 7 p = ''11;rgb:''"
    and lr: "2 \<le> length ?R" and sl1: "take 1 ?s2 = ''/''"
    and lg: "2 \<le> length ?G" and sl2: "take 1 ?s4 = ''/''"
    and lb: "2 \<le> length ?B"
    by (auto simp: background_color_match_def Let_def split: if_splits)
  have p: "p = ''11;rgb:'' @ ?s1" using pre by (metis append_take_drop_id)
  have s1: "?s1 = ?R @ ?s2" by (rule hex_field_props(3))
  have s2: "?s2 = ''/'' @ ?s3" using sl1 by (metis append_take_drop_id)
  have s3: "?s3 = ?G @ ?s4" by (rule hex_field_props(3))
  have s4: "?s4 = ''/'' @ ?s5" using sl2 by (metis append_take_drop_id)
  have s5: "?s5 = ?B @ drop (length ?B) ?s5" by (rule hex_field_props(3))
  have "p = ''11;rgb:'' @ ?R @ ''/'' @ ?G @ ''/'' @ ?B @ drop (length ?B) ?s5"
    using p s1 s2 s3 s4 s5 by metis
  with lr lg lb hex_field_props(1,2) show ?thesis by blast
qed

lemma bg_color_result_matched:
  assumes "osc_string g = Some (''11;rgb:'' @ R @ ''/'' @ G @ ''/'' @ B @ rest)"
    and R: "\<forall>c\<in>set R. is_hex c" "2 \<le> length R" "length R \<le> 4"
    and G: "\<forall>c\<in>set G. is_hex c" "2 \<le> length G" "length G \<le> 4"
    and B: "\<forall>c\<in>set B. is_hex c" "2 \<le> length B" "length B \<le> 4"
  shows "bg_color_result (Some g) = Some (CHR ''#'' # take 2 R @ take 2 G @ take 2 B)"
proof -
  from background_color_match_complete[OF R G B, of rest] obtain Y where
    m: "background_color_match (''11;rgb:'' @ R @ ''/'' @ G @ ''/'' @ B @ rest)
           = Some [(''r'', R), (''g'', G), (''b'', B @ Y)]" by blast
  have "take 2 (B @ Y) = take 2 B" using B(2) by simp
  with assms(1) m show ?thesis
    by (simp add: bg_color_result_def dict_get_def Let_def)
qed

lemma bg_color_result_unmatched:
  assumes "osc_string g = Some p"
    and "\<nexists>R G B rest. p = ''11;rgb:'' @ R @ ''/'' @ G @ ''/'' @ B @ rest
           \<and> (\<forall>c\<in>set R. is_hex c) \<and> 2 \<le> length R \<and> length R \<le> 4
           \<and> (\<forall>c\<in>set G. is_hex c) \<and> 2 \<le> length G \<and> length G \<le> 4
           \<and> (\<forall>c\<in>set B. is_hex c) \<and> 2 \<le> length B \<and> length B \<le> 4"
  shows "bg_color_result (Some g) = None"
proof -
  have "background_color_match p = None"
  proof (rule ccontr)
    assume "background_color_match p \<noteq> None"
    then obtain colors where "background_color_match p = Some colors" by blast
    from background_color_match_sound[OF this] assms(2) show False by blast
  qed
  with assms(1) show ?thesis by (simp add: bg_color_result_def)
qed

lemma bg_color_returns:
  "query_term QueryCodes_background_color a = (Ret result, a1) \<Longrightarrow>
   bg_color a = (Ret (bg_color_result result), a1)"
  by (simp add: bg_color_def)

text \<open>
  What \<open>bg_color\<close> is when the probe returns, by the classification and its OSC payload.
\<close>

lemma bg_color_returned:
  "query_term QueryCodes_background_color a = (Ret result, a1) \<longrightarrow>
     (\<forall>g R G B rest.
        result = Some g
        \<and> osc_string g = Some (''11;rgb:'' @ R @ ''/'' @ G @ ''/'' @ B @ rest)
        \<and> hex_digits_2_4 R \<and> hex_digits_2_4 G \<and> hex_digits_2_4 B
        \<longrightarrow> bg_color a = (Ret (Some (CHR ''#'' # take 2 R @ take 2 G @ take 2 B)), a1))
   \<and> (\<forall>g. result = Some g \<and> osc_string g = Some ''11;rgb:1234/5678/9abc''
        \<longrightarrow> bg_color a = (Ret (Some ''#12569a''), a1))
   \<and> (result = None \<longrightarrow> bg_color a = (Ret None, a1))
   \<and> (\<forall>g. result = Some g \<and> osc_string g = None \<longrightarrow> bg_color a = (Ret None, a1))
   \<and> (\<forall>g p.
        result = Some g \<and> osc_string g = Some p
        \<and> (\<nexists>R G B rest. p = ''11;rgb:'' @ R @ ''/'' @ G @ ''/'' @ B @ rest
               \<and> hex_digits_2_4 R \<and> hex_digits_2_4 G \<and> hex_digits_2_4 B)
        \<longrightarrow> bg_color a = (Ret None, a1))"
proof (intro impI)
  assume q: "query_term QueryCodes_background_color a = (Ret result, a1)"
  note ret = bg_color_returns[OF q]
  have 1: "bg_color_result (Some g) = Some (CHR ''#'' # take 2 R @ take 2 G @ take 2 B)"
    if "osc_string g = Some (''11;rgb:'' @ R @ ''/'' @ G @ ''/'' @ B @ rest)"
      and "hex_digits_2_4 R" "hex_digits_2_4 G" "hex_digits_2_4 B" for g R G B rest
    using that unfolding is_hex_set[symmetric] by (intro bg_color_result_matched) blast+
  have 2: "bg_color_result (Some g) = Some ''#12569a''"
    if "osc_string g = Some ''11;rgb:1234/5678/9abc''" for g
  proof -
    have "background_color_match ''11;rgb:1234/5678/9abc''
            = Some [(''r'', ''1234''), (''g'', ''5678''), (''b'', ''9abc'')]"
      by code_simp
    with that show ?thesis by (simp add: bg_color_result_def dict_get_def)
  qed
  have 3: "bg_color_result None = None" by (simp add: bg_color_result_def)
  have 4: "bg_color_result (Some g) = None" if "osc_string g = None" for g
    using that by (simp add: bg_color_result_def)
  have 5: "bg_color_result (Some g) = None"
    if "osc_string g = Some p"
      and "\<nexists>R G B rest. p = ''11;rgb:'' @ R @ ''/'' @ G @ ''/'' @ B @ rest
               \<and> hex_digits_2_4 R \<and> hex_digits_2_4 G \<and> hex_digits_2_4 B" for g p
    using that unfolding is_hex_set[symmetric] by (intro bg_color_result_unmatched) blast+
  show "(\<forall>g R G B rest.
        result = Some g
        \<and> osc_string g = Some (''11;rgb:'' @ R @ ''/'' @ G @ ''/'' @ B @ rest)
        \<and> hex_digits_2_4 R \<and> hex_digits_2_4 G \<and> hex_digits_2_4 B
        \<longrightarrow> bg_color a = (Ret (Some (CHR ''#'' # take 2 R @ take 2 G @ take 2 B)), a1))
   \<and> (\<forall>g. result = Some g \<and> osc_string g = Some ''11;rgb:1234/5678/9abc''
        \<longrightarrow> bg_color a = (Ret (Some ''#12569a''), a1))
   \<and> (result = None \<longrightarrow> bg_color a = (Ret None, a1))
   \<and> (\<forall>g. result = Some g \<and> osc_string g = None \<longrightarrow> bg_color a = (Ret None, a1))
   \<and> (\<forall>g p.
        result = Some g \<and> osc_string g = Some p
        \<and> (\<nexists>R G B rest. p = ''11;rgb:'' @ R @ ''/'' @ G @ ''/'' @ B @ rest
               \<and> hex_digits_2_4 R \<and> hex_digits_2_4 G \<and> hex_digits_2_4 B)
        \<longrightarrow> bg_color a = (Ret None, a1))"
    unfolding ret
  proof (intro conjI allI impI)
    fix g R G B rest
    assume h: "result = Some g
        \<and> osc_string g = Some (''11;rgb:'' @ R @ ''/'' @ G @ ''/'' @ B @ rest)
        \<and> hex_digits_2_4 R \<and> hex_digits_2_4 G \<and> hex_digits_2_4 B"
    then have r: "result = Some g" by blast
    from h have "bg_color_result (Some g) = Some (CHR ''#'' # take 2 R @ take 2 G @ take 2 B)"
      by (intro 1[of g R G B rest]) blast+
    then show "(Ret (bg_color_result result), a1) =
        (Ret (Some (CHR ''#'' # take 2 R @ take 2 G @ take 2 B)), a1)"
      unfolding r by (simp only:)
  next
    fix g
    assume "result = Some g \<and> osc_string g = Some ''11;rgb:1234/5678/9abc''"
    then show "(Ret (bg_color_result result), a1) = (Ret (Some ''#12569a''), a1)"
      using 2[of g] by simp
  next
    assume "result = None"
    then show "(Ret (bg_color_result result), a1) = (Ret None, a1)" using 3 by simp
  next
    fix g
    assume "result = Some g \<and> osc_string g = None"
    then show "(Ret (bg_color_result result), a1) = (Ret None, a1)" using 4[of g] by simp
  next
    fix g p
    assume h: "result = Some g \<and> osc_string g = Some p
        \<and> (\<nexists>R G B rest. p = ''11;rgb:'' @ R @ ''/'' @ G @ ''/'' @ B @ rest
               \<and> hex_digits_2_4 R \<and> hex_digits_2_4 G \<and> hex_digits_2_4 B)"
    then have r: "result = Some g" by blast
    from h have "bg_color_result (Some g) = None"
      by (intro 5[of g p]) blast+
    then show "(Ret (bg_color_result result), a1) = (Ret None, a1)"
      unfolding r by (simp only:)
  qed
qed

lemma bg_color_raises:
  "query_term QueryCodes_background_color a = (Exc e, a1) \<Longrightarrow> bg_color a = (Exc e, a1)"
  by (simp add: bg_color_def)

text \<open>
  C8, as amended.  When the probe for the background colour returns a classification
  whose OSC payload is, or begins with, \<open>11;rgb:R/G/B\<close> with hexadecimal fields of two to
  four digits each, \<open>bg_color\<close> is \<open>#\<close> followed by the first two characters of \<open>R\<close>, of \<open>G\<close>
  and of \<open>B\<close>; the payload \<open>11;rgb:1234/5678/9abc\<close> gives \<open>#12569a\<close>.  When the probe returns
  no classification, or the classification has no OSC payload, or the payload does not
  begin in this form, \<open>bg_color\<close> is \<open>None\<close>.  When the probe raises, \<open>bg_color\<close> raises the
  same exception.
\<close>

theorem bg_color_value:
  "(query_term QueryCodes_background_color a = (Ret result, a1) \<longrightarrow>
     (\<forall>g R G B rest.
        result = Some g
        \<and> osc_string g = Some (''11;rgb:'' @ R @ ''/'' @ G @ ''/'' @ B @ rest)
        \<and> hex_digits_2_4 R \<and> hex_digits_2_4 G \<and> hex_digits_2_4 B
        \<longrightarrow> bg_color a = (Ret (Some (CHR ''#'' # take 2 R @ take 2 G @ take 2 B)), a1))
   \<and> (\<forall>g. result = Some g \<and> osc_string g = Some ''11;rgb:1234/5678/9abc''
        \<longrightarrow> bg_color a = (Ret (Some ''#12569a''), a1))
   \<and> (result = None \<longrightarrow> bg_color a = (Ret None, a1))
   \<and> (\<forall>g. result = Some g \<and> osc_string g = None \<longrightarrow> bg_color a = (Ret None, a1))
   \<and> (\<forall>g p.
        result = Some g \<and> osc_string g = Some p
        \<and> (\<nexists>R G B rest. p = ''11;rgb:'' @ R @ ''/'' @ G @ ''/'' @ B @ rest
               \<and> hex_digits_2_4 R \<and> hex_digits_2_4 G \<and> hex_digits_2_4 B)
        \<longrightarrow> bg_color a = (Ret None, a1)))
   \<and> (query_term QueryCodes_background_color a = (Exc e, a2) \<longrightarrow> bg_color a = (Exc e, a2))"
proof (rule conjI)
  show "query_term QueryCodes_background_color a = (Exc e, a2) \<longrightarrow> bg_color a = (Exc e, a2)"
    using bg_color_raises by blast
qed (rule bg_color_returned)

text \<open>
  The theorem on four terminals: one that answers \<open>ESC ] 11;rgb:1234/5678/9abc ESC \\<close>,
  one that gives no answer to the query, one that answers \<open>ESC ] 10;x BEL\<close>, and one whose
  second read raises.
\<close>

theorem bg_color_value_witness:
  "fst (bg_color (example_app (24, 80, 0, 0) (24, 80)
                    (answers (ESC # '']11;rgb:1234/5678/9abc'' @ ST)))) = Ret (Some ''#12569a'')
   \<and> fst (bg_color (example_app (24, 80, 0, 0) (24, 80) (answers []))) = Ret None
   \<and> fst (bg_color (example_app (24, 80, 0, 0) (24, 80) (answers (ESC # '']10;x'' @ [BEL]))))
       = Ret None
   \<and> fst (bg_color (example_app (24, 80, 0, 0) (24, 80) [Ch ESC, RdRaise])) = Exc OSError"
proof -
  let ?ra = "ESC # '']11;rgb:1234/5678/9abc'' @ ST"
  let ?rc = "ESC # '']10;x'' @ [BEL]"
  let ?a = "example_app (24, 80, 0, 0) (24, 80) (answers ?ra)"
  let ?b = "example_app (24, 80, 0, 0) (24, 80) (answers [])"
  let ?c = "example_app (24, 80, 0, 0) (24, 80) (answers ?rc)"
  let ?d = "example_app (24, 80, 0, 0) (24, 80) [Ch ESC, RdRaise]"
  let ?q = QueryCodes_background_color
  let ?ga = "no_groups\<lparr> osc := Some ('']11;rgb:1234/5678/9abc'' @ ST),
                        osc_string := Some ''11;rgb:1234/5678/9abc'', osc_term := Some ST \<rparr>"
  let ?gc = "no_groups\<lparr> osc := Some ('']10;x'' @ [BEL]),
                        osc_string := Some ''10;x'', osc_term := Some [BEL] \<rparr>"
  have fma: "first_match [] (?ra @ ESC # ''[>0c'') = Some (?ra @ ESC # ''[>0c'', [])"
    by code_simp
  have fmb: "first_match [] ([] @ ESC # ''[>0c'') = Some ([] @ ESC # ''[>0c'', [])"
    by code_simp
  have fmc: "first_match [] (?rc @ ESC # ''[>0c'') = Some (?rc @ ESC # ''[>0c'', [])"
    by code_simp
  have ca: "CONTROL_RE_search (device_sub (?ra @ ESC # ''[>0c'')) = Some ?ga" by code_simp
  have cb: "CONTROL_RE_search (device_sub ([] @ ESC # ''[>0c'')) = None" by code_simp
  have cc: "CONTROL_RE_search (device_sub (?rc @ ESC # ''[>0c'')) = Some ?gc" by code_simp
  from probe_answered[OF fma, of ?q "(24, 80, 0, 0)" "(24, 80)" "[]"] ca
  obtain a1 where qa: "query_term ?q ?a = (Ret (Some ?ga), a1)" by auto
  from probe_answered[OF fmb, of ?q "(24, 80, 0, 0)" "(24, 80)" "[]"] cb
  obtain b1 where qb: "query_term ?q ?b = (Ret None, b1)" by auto
  from probe_answered[OF fmc, of ?q "(24, 80, 0, 0)" "(24, 80)" "[]"] cc
  obtain c1 where qc: "query_term ?q ?c = (Ret (Some ?gc), c1)" by auto
  have "fst (query_term ?q ?d) = Exc OSError" by code_simp
  then have qd: "query_term ?q ?d = (Exc OSError, snd (query_term ?q ?d))"
    by (metis prod.collapse)
  have ha: "Some ?ga = Some ?ga
        \<and> osc_string ?ga = Some (''11;rgb:'' @ ''1234'' @ ''/'' @ ''5678'' @ ''/'' @ ''9abc'' @ [])
        \<and> hex_digits_2_4 ''1234'' \<and> hex_digits_2_4 ''5678'' \<and> hex_digits_2_4 ''9abc''"
    by (simp add: no_groups_def)
  from qa bg_color_value [where a = ?a and result = "Some ?ga" and ?a1.0 = a1]
  have "\<forall>g R G B rest.
        Some ?ga = Some g
        \<and> osc_string g = Some (''11;rgb:'' @ R @ ''/'' @ G @ ''/'' @ B @ rest)
        \<and> hex_digits_2_4 R \<and> hex_digits_2_4 G \<and> hex_digits_2_4 B
        \<longrightarrow> bg_color ?a = (Ret (Some (CHR ''#'' # take 2 R @ take 2 G @ take 2 B)), a1)"
    by blast
  from this[rule_format, of ?ga "''1234''" "''5678''" "''9abc''" "[]", OF ha]
  have 1: "fst (bg_color ?a) = Ret (Some ''#12569a'')" by simp
  from qb bg_color_value [where a = ?b and result = None and ?a1.0 = b1]
  have 2: "fst (bg_color ?b) = Ret None" by simp
  have nm: "\<nexists>R G B rest. ''10;x'' = ''11;rgb:'' @ R @ ''/'' @ G @ ''/'' @ B @ rest
               \<and> hex_digits_2_4 R \<and> hex_digits_2_4 G \<and> hex_digits_2_4 B"
    by simp
  have hc: "Some ?gc = Some ?gc \<and> osc_string ?gc = Some ''10;x''
        \<and> (\<nexists>R G B rest. ''10;x'' = ''11;rgb:'' @ R @ ''/'' @ G @ ''/'' @ B @ rest
               \<and> hex_digits_2_4 R \<and> hex_digits_2_4 G \<and> hex_digits_2_4 B)"
    using nm by (simp add: no_groups_def)
  from qc bg_color_value [where a = ?c and result = "Some ?gc" and ?a1.0 = c1]
  have "\<forall>g p.
        Some ?gc = Some g \<and> osc_string g = Some p
        \<and> (\<nexists>R G B rest. p = ''11;rgb:'' @ R @ ''/'' @ G @ ''/'' @ B @ rest
               \<and> hex_digits_2_4 R \<and> hex_digits_2_4 G \<and> hex_digits_2_4 B)
        \<longrightarrow> bg_color ?c = (Ret None, c1)"
    by blast
  from this[rule_format, of ?gc "''10;x''", OF hc]
  have 3: "fst (bg_color ?c) = Ret None" by simp
  from qd bg_color_value [where a = ?d and e = OSError and ?a2.0 = "snd (query_term ?q ?d)"]
  have 4: "fst (bg_color ?d) = Exc OSError" by simp
  from 1 2 3 4 show ?thesis by blast
qed

text \<open>
  C8 as stated fails: the payloads \<open>11;rgb:12/34/56junk\<close> and \<open>11;rgb:FFFF/0000/abcdef\<close> are
  not of the form \<open>11;rgb:R/G/B\<close> with fields of two to four hexadecimal digits, their
  third fields being \<open>56junk\<close> and \<open>abcdef\<close>, and \<open>bg_color\<close> is a colour for both, not \<open>None\<close>.
\<close>

theorem bg_color_prefix_counterexample:
  "fst (bg_color (example_app (24, 80, 0, 0) (24, 80)
                    (answers (ESC # '']11;rgb:12/34/56junk'' @ [BEL])))) = Ret (Some ''#123456'')
   \<and> fst (bg_color (example_app (24, 80, 0, 0) (24, 80)
                    (answers (ESC # '']11;rgb:FFFF/0000/abcdef'' @ ST)))) = Ret (Some ''#FF00ab'')
   \<and> \<not> hex_digits_2_4 ''56junk'' \<and> \<not> hex_digits_2_4 ''abcdef''"
proof -
  let ?ra = "ESC # '']11;rgb:12/34/56junk'' @ [BEL]"
  let ?rb = "ESC # '']11;rgb:FFFF/0000/abcdef'' @ ST"
  let ?a = "example_app (24, 80, 0, 0) (24, 80) (answers ?ra)"
  let ?b = "example_app (24, 80, 0, 0) (24, 80) (answers ?rb)"
  let ?q = QueryCodes_background_color
  have fma: "first_match [] (?ra @ ESC # ''[>0c'') = Some (?ra @ ESC # ''[>0c'', [])"
    by code_simp
  have fmb: "first_match [] (?rb @ ESC # ''[>0c'') = Some (?rb @ ESC # ''[>0c'', [])"
    by code_simp
  have ra: "bg_color_result (CONTROL_RE_search (device_sub (?ra @ ESC # ''[>0c'')))
              = Some ''#123456''"
    by code_simp
  have rb: "bg_color_result (CONTROL_RE_search (device_sub (?rb @ ESC # ''[>0c'')))
              = Some ''#FF00ab''"
    by code_simp
  from probe_answered[OF fma, of ?q "(24, 80, 0, 0)" "(24, 80)" "[]"]
  obtain a1 where qa: "query_term ?q ?a =
      (Ret (CONTROL_RE_search (device_sub (?ra @ ESC # ''[>0c''))), a1)" by auto
  from probe_answered[OF fmb, of ?q "(24, 80, 0, 0)" "(24, 80)" "[]"]
  obtain b1 where qb: "query_term ?q ?b =
      (Ret (CONTROL_RE_search (device_sub (?rb @ ESC # ''[>0c''))), b1)" by auto
  have 1: "fst (bg_color ?a) = Ret (Some ''#123456'')"
    using bg_color_returns[OF qa] ra by simp
  have 2: "fst (bg_color ?b) = Ret (Some ''#FF00ab'')"
    using bg_color_returns[OF qb] rb by simp
  have 3: "\<not> hex_digits_2_4 ''56junk'' \<and> \<not> hex_digits_2_4 ''abcdef''" by simp
  from 1 2 3 show ?thesis by blast
qed

subsection \<open>Memoised and plain accessors\<close>

lemma has_sixel_graphics_probes: "probes (snd (has_sixel_graphics a)) \<le> Suc (probes a)"
proof (cases "sixel_cache a")
  case None
  obtain r a1 where q: "query_term QueryCodes_sixel a = (r, a1)"
    by (cases "query_term QueryCodes_sixel a")
  from query_term_probes[of QueryCodes_sixel a] q have "probes a1 = Suc (probes a)" by simp
  with None q show ?thesis
    by (cases r; cases "sixel_result (case r of Ret x \<Rightarrow> x)")
       (simp_all add: has_sixel_graphics_def has_sixel_graphics_body_def)
next
  case (Some v)
  then show ?thesis by (simp add: has_sixel_graphics_def)
qed

lemma has_kitty_graphics_probes: "probes (snd (has_kitty_graphics a)) \<le> Suc (probes a)"
proof (cases "kitty_cache a")
  case None
  obtain r a1 where q: "query_term QueryCodes_kitty a = (r, a1)"
    by (cases "query_term QueryCodes_kitty a")
  from query_term_probes[of QueryCodes_kitty a] q have "probes a1 = Suc (probes a)" by simp
  with None q show ?thesis
    by (cases r; cases "kitty_result (case r of Ret x \<Rightarrow> x)")
       (simp_all add: has_kitty_graphics_def has_kitty_graphics_body_def)
next
  case (Some v)
  then show ?thesis by (simp add: has_kitty_graphics_def)
qed

lemma has_sixel_graphics_stored:
  assumes "has_sixel_graphics a = (Ret v, a')"
  shows "sixel_cache a' = Some v"
proof (cases "sixel_cache a")
  case None
  obtain r a1 where b: "has_sixel_graphics_body a = (r, a1)"
    by (cases "has_sixel_graphics_body a")
  with None assms show ?thesis
    by (cases r) (auto simp: has_sixel_graphics_def)
next
  case (Some w)
  with assms show ?thesis by (simp add: has_sixel_graphics_def)
qed

lemma has_kitty_graphics_stored:
  assumes "has_kitty_graphics a = (Ret v, a')"
  shows "kitty_cache a' = Some v"
proof (cases "kitty_cache a")
  case None
  obtain r a1 where b: "has_kitty_graphics_body a = (r, a1)"
    by (cases "has_kitty_graphics_body a")
  with None assms show ?thesis
    by (cases r) (auto simp: has_kitty_graphics_def)
next
  case (Some w)
  with assms show ?thesis by (simp add: has_kitty_graphics_def)
qed

lemma term_size_px_probes:
  assumes "tiocgwnsz a = Ret (rows, cols, 0, py)"
  shows "probes (snd (term_size_px a)) = Suc (probes a)"
proof -
  obtain r a1 where q: "query_term QueryCodes_pixel_dimensions a = (r, a1)"
    by (cases "query_term QueryCodes_pixel_dimensions a")
  from query_term_probes[of QueryCodes_pixel_dimensions a] q
  have "probes a1 = Suc (probes a)" by simp
  with assms q show ?thesis
    by (cases r) (simp_all add: term_size_px_def)
qed

lemma char_size_px_state: "snd (char_size_px a) = snd (term_size_px a)"
proof -
  obtain r a1 where t: "term_size_px a = (r, a1)" by (cases "term_size_px a")
  then show ?thesis
    by (cases r) (auto simp: char_size_px_def Let_def split: prod.splits)
qed

text \<open>
  C1, as amended.  \<open>has_sixel_graphics\<close> and \<open>has_kitty_graphics\<close> are memoised: when an
  access returns a value, the next access returns the same value and leaves the state
  as it is, so it calls \<open>_query_term\<close> no more, and the two accesses together have called
  it at most once.  \<open>term_size_px\<close>, and \<open>char_size_px\<close> which reads it, are plain
  properties: every access that finds a zero pixel width in the \<open>ioctl\<close> result calls
  \<open>_query_term\<close> once.
\<close>

theorem memoised_accessors:
  "(has_sixel_graphics a = (Ret v, a1) \<longrightarrow>
      has_sixel_graphics a1 = (Ret v, a1) \<and> probes a1 \<le> Suc (probes a))
   \<and> (has_kitty_graphics a = (Ret w, a2) \<longrightarrow>
      has_kitty_graphics a2 = (Ret w, a2) \<and> probes a2 \<le> Suc (probes a))
   \<and> (tiocgwnsz a = Ret (rows, cols, 0, py) \<longrightarrow>
      probes (snd (term_size_px a)) = Suc (probes a)
      \<and> probes (snd (char_size_px a)) = Suc (probes a))"
proof (intro conjI impI)
  assume h: "has_sixel_graphics a = (Ret v, a1)"
  from has_sixel_graphics_stored[OF h]
  show "has_sixel_graphics a1 = (Ret v, a1)" by (simp add: has_sixel_graphics_def)
  from has_sixel_graphics_probes[of a] h show "probes a1 \<le> Suc (probes a)" by simp
next
  assume h: "has_kitty_graphics a = (Ret w, a2)"
  from has_kitty_graphics_stored[OF h]
  show "has_kitty_graphics a2 = (Ret w, a2)" by (simp add: has_kitty_graphics_def)
  from has_kitty_graphics_probes[of a] h show "probes a2 \<le> Suc (probes a)" by simp
next
  assume h: "tiocgwnsz a = Ret (rows, cols, 0, py)"
  from term_size_px_probes[OF h]
  show "probes (snd (term_size_px a)) = Suc (probes a)" .
  then show "probes (snd (char_size_px a)) = Suc (probes a)"
    by (simp add: char_size_px_state)
qed

text \<open>
  The theorem on a terminal that answers the sixel probe with \<open>ESC [ ? 0 ; 0 ; 0 S\<close> and on
  one that answers the kitty probe with \<open>ESC _ G i = 1 ; O K ESC \\<close>: the first access is
  true and has made one probe, and the second access is true and has made none.
\<close>

theorem memoised_accessors_witness:
  "fst (has_sixel_graphics
         (example_app (24, 80, 0, 0) (24, 80) (answers (ESC # ''[?0;0;0S'')))) = Ret True
   \<and> has_sixel_graphics
        (snd (has_sixel_graphics
               (example_app (24, 80, 0, 0) (24, 80) (answers (ESC # ''[?0;0;0S'')))))
      = (Ret True,
         snd (has_sixel_graphics
               (example_app (24, 80, 0, 0) (24, 80) (answers (ESC # ''[?0;0;0S'')))))
   \<and> probes (snd (has_sixel_graphics
                    (example_app (24, 80, 0, 0) (24, 80) (answers (ESC # ''[?0;0;0S''))))) \<le> 1
   \<and> fst (has_kitty_graphics
         (example_app (24, 80, 0, 0) (24, 80) (answers (ESC # ''_Gi=1;OK'' @ ST)))) = Ret True
   \<and> has_kitty_graphics
        (snd (has_kitty_graphics
               (example_app (24, 80, 0, 0) (24, 80) (answers (ESC # ''_Gi=1;OK'' @ ST)))))
      = (Ret True,
         snd (has_kitty_graphics
               (example_app (24, 80, 0, 0) (24, 80) (answers (ESC # ''_Gi=1;OK'' @ ST)))))
   \<and> probes (snd (term_size_px (example_app (24, 80, 0, 0) (24, 80) []))) = 1"
proof -
  let ?s = "example_app (24, 80, 0, 0) (24, 80) (answers (ESC # ''[?0;0;0S''))"
  let ?k = "example_app (24, 80, 0, 0) (24, 80) (answers (ESC # ''_Gi=1;OK'' @ ST))"
  let ?t = "example_app (24, 80, 0, 0) (24, 80) []"
  have fms: "first_match [] ((ESC # ''[?0;0;0S'') @ ESC # ''[>0c'')
              = Some ((ESC # ''[?0;0;0S'') @ ESC # ''[>0c'', [])"
    by code_simp
  have fmk: "first_match [] ((ESC # ''_Gi=1;OK'' @ ST) @ ESC # ''[>0c'')
              = Some ((ESC # ''_Gi=1;OK'' @ ST) @ ESC # ''[>0c'', [])"
    by code_simp
  have rs: "sixel_result (CONTROL_RE_search (device_sub ((ESC # ''[?0;0;0S'') @ ESC # ''[>0c'')))
              = Ret True"
    by code_simp
  have rk: "kitty_result
              (CONTROL_RE_search (device_sub ((ESC # ''_Gi=1;OK'' @ ST) @ ESC # ''[>0c'')))
              = Ret True"
    by code_simp
  from probe_answered[OF fms, of QueryCodes_sixel "(24, 80, 0, 0)" "(24, 80)" "[]"]
  obtain s1 where qs: "query_term QueryCodes_sixel ?s =
      (Ret (CONTROL_RE_search (device_sub ((ESC # ''[?0;0;0S'') @ ESC # ''[>0c''))), s1)"
    by auto
  from probe_answered[OF fmk, of QueryCodes_kitty "(24, 80, 0, 0)" "(24, 80)" "[]"]
  obtain k1 where qk: "query_term QueryCodes_kitty ?k =
      (Ret (CONTROL_RE_search (device_sub ((ESC # ''_Gi=1;OK'' @ ST) @ ESC # ''[>0c''))), k1)"
    by auto
  have cs: "sixel_cache ?s = None" and ck: "kitty_cache ?k = None"
    by (simp_all add: example_app_def)
  have 1: "fst (has_sixel_graphics ?s) = Ret True"
    using cs qs rs by (simp add: has_sixel_graphics_def has_sixel_graphics_body_def)
  have 2: "fst (has_kitty_graphics ?k) = Ret True"
    using ck qk rk by (simp add: has_kitty_graphics_def has_kitty_graphics_body_def)
  have ps: "has_sixel_graphics ?s = (Ret True, snd (has_sixel_graphics ?s))"
    using 1 by (metis prod.collapse)
  have pk: "has_kitty_graphics ?k = (Ret True, snd (has_kitty_graphics ?k))"
    using 2 by (metis prod.collapse)
  have tio: "tiocgwnsz ?t = Ret (24, 80, 0, 0)"
    by (simp add: tiocgwnsz_def example_app_def)
  have p0: "probes ?s = 0" "probes ?t = 0" by (simp_all add: example_app_def)
  from ps memoised_accessors [where a = ?s and v = True and ?a1.0 = "snd (has_sixel_graphics ?s)"]
  have 3: "has_sixel_graphics (snd (has_sixel_graphics ?s)) = (Ret True, snd (has_sixel_graphics ?s))"
    and 4: "probes (snd (has_sixel_graphics ?s)) \<le> 1"
    using p0 by simp_all
  from pk memoised_accessors [where a = ?k and w = True and ?a2.0 = "snd (has_kitty_graphics ?k)"]
  have 5: "has_kitty_graphics (snd (has_kitty_graphics ?k)) = (Ret True, snd (has_kitty_graphics ?k))"
    by simp
  from tio memoised_accessors [where a = ?t and rows = 24 and cols = 80 and py = 0]
  have 6: "probes (snd (term_size_px ?t)) = 1" using p0 by simp
  from 1 2 3 4 5 6 show ?thesis by blast
qed

text \<open>
  C1 as stated fails for \<open>term_size_px\<close>.  The \<open>ioctl\<close> reports zero pixels and the terminal
  answers the delimiters of two probes and nothing else.  Two consecutive accesses both
  return \<open>(0, 0)\<close>, and \<open>_query_term\<close> has been called twice.
\<close>

theorem term_size_px_twice_counterexample:
  "fst (term_size_px (example_app (24, 80, 0, 0) (24, 80) (answers [] @ answers [])))
     = Ret (0, 0)
   \<and> fst (term_size_px
           (snd (term_size_px (example_app (24, 80, 0, 0) (24, 80) (answers [] @ answers [])))))
     = Ret (0, 0)
   \<and> probes (snd (term_size_px
           (snd (term_size_px (example_app (24, 80, 0, 0) (24, 80) (answers [] @ answers []))))))
     = 2"
proof -
  let ?a = "example_app (24, 80, 0, 0) (24, 80) (answers [] @ answers [])"
  let ?q = QueryCodes_pixel_dimensions
  have fm: "first_match [] ([] @ ESC # ''[>0c'') = Some ([] @ ESC # ''[>0c'', [])"
    by code_simp
  have cl: "CONTROL_RE_search (device_sub ([] @ ESC # ''[>0c'')) = None" by code_simp
  from probe_answered[OF fm, of ?q "(24, 80, 0, 0)" "(24, 80)" "answers []"] cl
  obtain tr where q1: "query_term ?q ?a =
      (Ret None, (example_app (24, 80, 0, 0) (24, 80) (answers []))\<lparr> trace := tr, probes := 1 \<rparr>)"
    by auto
  let ?b = "(example_app (24, 80, 0, 0) (24, 80) (answers []))\<lparr> trace := tr, probes := 1 \<rparr>"
  have tioa: "tiocgwnsz ?a = Ret (24, 80, 0, 0)" and tiob: "tiocgwnsz ?b = Ret (24, 80, 0, 0)"
    by (simp_all add: tiocgwnsz_def example_app_def)
  have t1: "term_size_px ?a = (Ret (0, 0), ?b)"
    using tioa q1 by (simp add: term_size_px_def term_size_result_def)
  have hb: "have_termios_tty_fcntl ?b" "stdin_isatty ?b" "out_budget ?b = None"
    "stdin ?b = map Ch (ESC # ''[>0c'' @ [] @ ESC # ''[>0c'') @ []"
    by (simp_all add: example_app_def answers_def)
  from query_term_answered[OF hb first_match_delimiter fm, of ?q] cl
  obtain tr2 where q2: "query_term ?q ?b =
      (Ret None, ?b\<lparr> stdin := map Ch [] @ [], trace := tr2, probes := Suc (probes ?b) \<rparr>)"
    by auto
  have t2: "term_size_px ?b =
      (Ret (0, 0), ?b\<lparr> stdin := map Ch [] @ [], trace := tr2, probes := Suc (probes ?b) \<rparr>)"
    using tiob q2 by (simp add: term_size_px_def term_size_result_def)
  from t1 t2 show ?thesis by simp
qed

section \<open>Properties of the render cache\<close>

lemma map_of_filter_key:
  "map_of (filter (\<lambda>e. Q (fst e)) es) k = (if Q k then map_of es k else None)"
  by (induction es) auto

lemma cache_lookup_hit: "cache_lookup (cache_hit c k') k = cache_lookup c k"
proof (cases "renew_on_hit c")
  case False
  then show ?thesis by (simp add: cache_hit_def)
next
  case True
  have "map_of (filter (\<lambda>e. fst e \<noteq> k') (entries c) @ filter (\<lambda>e. fst e = k') (entries c)) k
        = map_of (entries c) k"
    using map_of_filter_key[of "\<lambda>x. x \<noteq> k'" "entries c" k]
      map_of_filter_key[of "\<lambda>x. x = k'" "entries c" k]
    by (cases "k = k'") (simp_all add: map_add_def split: option.splits)
  with True show ?thesis by (simp add: cache_hit_def cache_lookup_def)
qed

lemma cache_hit_fields: "maxsize (cache_hit c k) = maxsize c"
  by (simp add: cache_hit_def)

lemma cache_store_fields: "maxsize (cache_store c k v) = maxsize c"
  by (simp add: cache_store_def Let_def)

text \<open>A value just stored is found; room is made at the other end of the store.\<close>

lemma cache_lookup_store_same:
  assumes "0 < maxsize c"
  shows "cache_lookup (cache_store c k v) k = Some v"
proof -
  let ?old = "filter (\<lambda>e. fst e \<noteq> k) (entries c)"
  have none: "map_of ?old k = None"
    using map_of_filter_key[of "\<lambda>x. x \<noteq> k" "entries c" k] by simp
  then have full: "map_of (?old @ [(k, v)]) k = Some v" by (simp add: map_add_def)
  show ?thesis
  proof (cases ?old)
    case Nil
    with assms show ?thesis by (simp add: cache_store_def cache_lookup_def Let_def)
  next
    case (Cons e es)
    with none have "map_of es k = None" by (cases e) (simp split: if_splits)
    then have "map_of (es @ [(k, v)]) k = Some v" by (simp add: map_add_def)
    with Cons full show ?thesis by (simp add: cache_store_def cache_lookup_def Let_def)
  qed
qed

lemma cache_lookup_store_other:
  assumes "cache_lookup c k' = None" and "k' \<noteq> k"
  shows "cache_lookup (cache_store c k v) k' = None"
proof -
  let ?es = "filter (\<lambda>e. fst e \<noteq> k) (entries c) @ [(k, v)]"
  have "k' \<notin> fst ` set (entries c)"
    using assms(1) by (simp add: cache_lookup_def map_of_eq_None_iff)
  then have out: "k' \<notin> fst ` set ?es" using assms(2) by auto
  have "set (tl ?es) \<subseteq> set ?es" by (cases ?es) auto
  with out have "k' \<notin> fst ` set (tl ?es)" by blast
  with out show ?thesis
    by (simp add: cache_store_def cache_lookup_def Let_def map_of_eq_None_iff del: set_append)
qed

lemma get_rendered_lines_hit:
  assumes "cache_lookup (format_cache c) (w, extra_keys c) = Some v"
  shows "get_rendered_lines w h c =
           (v, c\<lparr> format_cache := cache_hit (format_cache c) (w, extra_keys c) \<rparr>)"
  using assms by (simp add: get_rendered_lines_def)

lemma get_rendered_lines_miss:
  assumes "cache_lookup (format_cache c) (w, extra_keys c) = None"
  shows "get_rendered_lines w h c =
           (fst (render w h c),
            c\<lparr> render_calls := Suc (render_calls c),
               format_cache := cache_store (format_cache c) (w, extra_keys c)
                                 (fst (render w h c)) \<rparr>)"
  using assms by (simp add: get_rendered_lines_def render_def Let_def)

lemma extra_keys_updates:
  "extra_keys (c\<lparr> format_cache := f \<rparr>) = extra_keys c"
  "extra_keys (c\<lparr> render_calls := n \<rparr>) = extra_keys c"
  "extra_keys (c\<lparr> rendered_lines := ls \<rparr>) = extra_keys c"
  by (simp_all add: extra_keys_def)

text \<open>
  Calls at a width whose lines are in the cache: whatever the heights, the renderer is
  not called, the same lines come back, and a width that is not in the cache stays out.
\<close>

lemma cached_calls:
  assumes "cache_lookup (format_cache c) (w, extra_keys c) = Some v"
  shows "render_calls (fold (\<lambda>h c. snd (get_rendered_lines w h c)) hs c) = render_calls c
       \<and> extra_keys (fold (\<lambda>h c. snd (get_rendered_lines w h c)) hs c) = extra_keys c
       \<and> maxsize (format_cache (fold (\<lambda>h c. snd (get_rendered_lines w h c)) hs c))
           = maxsize (format_cache c)
       \<and> (\<forall>k. cache_lookup (format_cache (fold (\<lambda>h c. snd (get_rendered_lines w h c)) hs c)) k
               = cache_lookup (format_cache c) k)"
  using assms
proof (induction hs arbitrary: c)
  case Nil
  then show ?case by simp
next
  case (Cons h hs)
  let ?c1 = "c\<lparr> format_cache := cache_hit (format_cache c) (w, extra_keys c) \<rparr>"
  have step: "snd (get_rendered_lines w h c) = ?c1"
    using get_rendered_lines_hit[OF Cons.prems] by simp
  have c1: "render_calls ?c1 = render_calls c" "extra_keys ?c1 = extra_keys c"
    "maxsize (format_cache ?c1) = maxsize (format_cache c)"
    "\<And>k. cache_lookup (format_cache ?c1) k = cache_lookup (format_cache c) k"
    by (simp_all add: extra_keys_updates cache_hit_fields cache_lookup_hit)
  have "cache_lookup (format_cache ?c1) (w, extra_keys ?c1) = Some v"
    using Cons.prems c1 by simp
  from Cons.IH[OF this] c1 step show ?case by simp
qed

text \<open>
  C3.  Take a control whose cache has no lines yet for the width \<open>w\<close> nor for another
  width \<open>w'\<close>, as after \<open>__init__\<close>, and that is left unchanged between the calls.
  However many calls of \<open>get_rendered_lines\<close> follow with the width \<open>w\<close>, and whatever their
  heights \<open>hs\<close>, the renderer is called exactly once, every further call with \<open>w\<close> gives
  the lines of that one rendering, and a call with \<open>w'\<close> after them calls the renderer
  again.
\<close>

theorem get_rendered_lines_cached:
  "0 < maxsize (format_cache c)
   \<and> cache_lookup (format_cache c) (w, extra_keys c) = None
   \<and> cache_lookup (format_cache c) (w', extra_keys c) = None \<and> w' \<noteq> w \<and> hs \<noteq> []
   \<longrightarrow> render_calls (fold (\<lambda>h c. snd (get_rendered_lines w h c)) hs c) = render_calls c + 1
     \<and> fst (get_rendered_lines w h (fold (\<lambda>h c. snd (get_rendered_lines w h c)) hs c))
         = fst (render w (hd hs) c)
     \<and> render_calls
         (snd (get_rendered_lines w h (fold (\<lambda>h c. snd (get_rendered_lines w h c)) hs c)))
         = render_calls c + 1
     \<and> render_calls
         (snd (get_rendered_lines w' h' (fold (\<lambda>h c. snd (get_rendered_lines w h c)) hs c)))
         = render_calls c + 2"
proof (intro impI, elim conjE)
  assume ms: "0 < maxsize (format_cache c)"
    and nw: "cache_lookup (format_cache c) (w, extra_keys c) = None"
    and nw': "cache_lookup (format_cache c) (w', extra_keys c) = None"
    and ne: "w' \<noteq> w" and hs: "hs \<noteq> []"
  from hs obtain h0 hs' where hs_eq: "hs = h0 # hs'" by (cases hs) auto
  let ?v = "fst (render w h0 c)"
  let ?c0 = "c\<lparr> render_calls := Suc (render_calls c),
               format_cache := cache_store (format_cache c) (w, extra_keys c) ?v \<rparr>"
  let ?run = "fold (\<lambda>h c. snd (get_rendered_lines w h c)) hs' ?c0"
  have first: "snd (get_rendered_lines w h0 c) = ?c0"
    using get_rendered_lines_miss[OF nw] by simp
  have c0: "render_calls ?c0 = Suc (render_calls c)" "extra_keys ?c0 = extra_keys c"
    by (simp_all add: extra_keys_updates)
  have in0: "cache_lookup (format_cache ?c0) (w, extra_keys ?c0) = Some ?v"
    using cache_lookup_store_same[OF ms, of "(w, extra_keys c)" ?v]
    by (simp add: extra_keys_updates)
  have "(w', extra_keys c) \<noteq> (w, extra_keys c)" using ne by simp
  from cache_lookup_store_other[OF nw' this, of ?v]
  have out0: "cache_lookup (format_cache ?c0) (w', extra_keys ?c0) = None"
    by (simp add: extra_keys_updates)
  note run = cached_calls[OF in0, of hs']
  have fold_eq: "fold (\<lambda>h c. snd (get_rendered_lines w h c)) hs c = ?run"
    using hs_eq first by simp
  have rc: "render_calls ?run = Suc (render_calls c)" using run c0 by simp
  have ek: "extra_keys ?run = extra_keys c" using run c0 by simp
  have inr: "cache_lookup (format_cache ?run) (w, extra_keys ?run) = Some ?v"
    using run in0 c0 by simp
  have outr: "cache_lookup (format_cache ?run) (w', extra_keys ?run) = None"
    using run out0 c0 by simp
  have again: "get_rendered_lines w h ?run =
      (?v, ?run\<lparr> format_cache := cache_hit (format_cache ?run) (w, extra_keys ?run) \<rparr>)"
    by (rule get_rendered_lines_hit[OF inr])
  have other: "render_calls (snd (get_rendered_lines w' h' ?run)) = Suc (render_calls ?run)"
    using get_rendered_lines_miss[OF outr] by simp
  show "render_calls (fold (\<lambda>h c. snd (get_rendered_lines w h c)) hs c) = render_calls c + 1
     \<and> fst (get_rendered_lines w h (fold (\<lambda>h c. snd (get_rendered_lines w h c)) hs c))
         = fst (render w (hd hs) c)
     \<and> render_calls
         (snd (get_rendered_lines w h (fold (\<lambda>h c. snd (get_rendered_lines w h c)) hs c)))
         = render_calls c + 1
     \<and> render_calls
         (snd (get_rendered_lines w' h' (fold (\<lambda>h c. snd (get_rendered_lines w h c)) hs c)))
         = render_calls c + 2"
    unfolding fold_eq using rc again other hs_eq by simp
qed

text \<open>
  The theorem on a new control: \<open>get_rendered_lines(80, 24)\<close> and
  \<open>get_rendered_lines(80, 30)\<close> call the renderer once, and
  \<open>get_rendered_lines(81, 24)\<close> after them calls it a second time.
\<close>

theorem get_rendered_lines_cached_witness:
  "render_calls
     (fold (\<lambda>h c. snd (get_rendered_lines 80 h c)) [24, 30]
        (OutputControl_init ''text'' (\<lambda>d w h. d) False None)) = 1
   \<and> render_calls
       (snd (get_rendered_lines 81 24
          (fold (\<lambda>h c. snd (get_rendered_lines 80 h c)) [24, 30]
             (OutputControl_init ''text'' (\<lambda>d w h. d) False None)))) = 2"
proof -
  let ?c = "OutputControl_init ''text'' (\<lambda>d w h. d) False None"
  have h: "0 < maxsize (format_cache ?c)
   \<and> cache_lookup (format_cache ?c) (80, extra_keys ?c) = None
   \<and> cache_lookup (format_cache ?c) (81, extra_keys ?c) = None \<and> (81::int) \<noteq> 80
   \<and> [24, 30::int] \<noteq> []"
    by (simp add: OutputControl_init_def cache_lookup_def)
  have rc: "render_calls ?c = 0" by (simp add: OutputControl_init_def)
  from h get_rendered_lines_cached [where c = ?c and w = 80 and w' = 81 and hs = "[24, 30]"
      and h' = 24]
  show ?thesis using rc by simp
qed

text \<open>
  When \<open>preferred_height\<close> renders and what it returns; \<open>preferred_width\<close> changes
  nothing.
\<close>

lemma preferred_height_renders:
  "render_calls (snd (preferred_height width max_available_height wrap_lines get_line_prefix c))
     = render_calls c
       + (if rendered_lines c = []
             \<and> cache_lookup (format_cache c) (width, extra_keys c) = None
          then 1 else 0)
   \<and> (rendered_lines c \<noteq> [] \<longrightarrow>
        preferred_height width max_available_height wrap_lines get_line_prefix c
          = (length (rendered_lines c), c))
   \<and> (\<forall>ls. rendered_lines c = []
            \<and> cache_lookup (format_cache c) (width, extra_keys c) = Some ls \<longrightarrow>
        fst (preferred_height width max_available_height wrap_lines get_line_prefix c)
          = length ls)
   \<and> snd (preferred_width fragment_len max_available_width c) = c"
proof (intro conjI)
  show "render_calls (snd (preferred_height width max_available_height wrap_lines get_line_prefix c))
     = render_calls c
       + (if rendered_lines c = []
             \<and> cache_lookup (format_cache c) (width, extra_keys c) = None
          then 1 else 0)"
  proof (cases "rendered_lines c = []")
    case False
    then show ?thesis by (simp add: preferred_height_def)
  next
    case True
    show ?thesis
    proof (cases "cache_lookup (format_cache c) (width, extra_keys c)")
      case None
      from get_rendered_lines_miss[OF None, of max_available_height] True None
      show ?thesis by (simp add: preferred_height_def Let_def)
    next
      case (Some ls)
      from get_rendered_lines_hit[OF Some, of max_available_height] True Some
      show ?thesis by (simp add: preferred_height_def Let_def)
    qed
  qed
  show "rendered_lines c \<noteq> [] \<longrightarrow>
        preferred_height width max_available_height wrap_lines get_line_prefix c
          = (length (rendered_lines c), c)"
    by (simp add: preferred_height_def)
  show "\<forall>ls. rendered_lines c = []
            \<and> cache_lookup (format_cache c) (width, extra_keys c) = Some ls \<longrightarrow>
        fst (preferred_height width max_available_height wrap_lines get_line_prefix c)
          = length ls"
  proof (intro allI impI, elim conjE)
    fix ls
    assume e: "rendered_lines c = []"
      and l: "cache_lookup (format_cache c) (width, extra_keys c) = Some ls"
    from get_rendered_lines_hit[OF l, of max_available_height] e
    show "fst (preferred_height width max_available_height wrap_lines get_line_prefix c)
          = length ls"
      by (simp add: preferred_height_def Let_def)
  qed
  show "snd (preferred_width fragment_len max_available_width c) = c"
    by (simp add: preferred_width_def split: list.splits)
qed

lemma fold_max_Max:
  "fold max (map f ls) (f l) = Max (f ` set (l # ls))"
proof -
  have "Max (set (f l # map f ls)) = fold max (map f ls) (f l)"
    by (rule Max.set_eq_fold)
  then show ?thesis by simp
qed

text \<open>
  C9.  \<open>preferred_height\<close> calls the renderer only when the control has no rendered lines
  and the cache has none for the width either; with lines of its own it returns their
  number and changes nothing, and with lines for the width in the cache it takes those
  and renders nothing.  \<open>preferred_width\<close> never renders: it changes nothing and returns
  the greatest display width among the rendered lines that the control holds, or \<open>None\<close>
  when it holds none.
\<close>

theorem preferred_size_renders:
  "render_calls (snd (preferred_height width max_available_height wrap_lines get_line_prefix c))
     = render_calls c
       + (if rendered_lines c = []
             \<and> cache_lookup (format_cache c) (width, extra_keys c) = None
          then 1 else 0)
   \<and> (rendered_lines c \<noteq> [] \<longrightarrow>
        preferred_height width max_available_height wrap_lines get_line_prefix c
          = (length (rendered_lines c), c))
   \<and> (\<forall>ls. rendered_lines c = []
            \<and> cache_lookup (format_cache c) (width, extra_keys c) = Some ls \<longrightarrow>
        fst (preferred_height width max_available_height wrap_lines get_line_prefix c)
          = length ls)
   \<and> preferred_width fragment_len max_available_width c
       = (if rendered_lines c = [] then None
          else Some (Max (fragment_len ` set (rendered_lines c))), c)"
  using preferred_height_renders [of width max_available_height wrap_lines get_line_prefix c]
  by (auto simp: preferred_width_def fold_max_Max split: list.splits)

text \<open>
  The theorem on a new control whose renderer gives two lines of four characters: the
  first \<open>preferred_height\<close> renders, and a second one, at another width, does not; nor
  does \<open>preferred_width\<close>, which is \<open>None\<close> before and 4 after.
\<close>

theorem preferred_size_renders_witness:
  "render_calls
     (snd (preferred_height 80 24 True ()
        (OutputControl_init ''text'' (\<lambda>d w h. d @ [LF] @ d) False None))) = 1
   \<and> preferred_height 81 24 True ()
       (snd (preferred_height 80 24 True ()
          (OutputControl_init ''text'' (\<lambda>d w h. d @ [LF] @ d) False None)))
     = (2, snd (preferred_height 80 24 True ()
          (OutputControl_init ''text'' (\<lambda>d w h. d @ [LF] @ d) False None)))
   \<and> preferred_width length 80
       (snd (preferred_height 80 24 True ()
          (OutputControl_init ''text'' (\<lambda>d w h. d @ [LF] @ d) False None)))
     = (Some 4, snd (preferred_height 80 24 True ()
          (OutputControl_init ''text'' (\<lambda>d w h. d @ [LF] @ d) False None)))
   \<and> preferred_width length 80
       (OutputControl_init ''text'' (\<lambda>d w h. d @ [LF] @ d) False None)
     = (None, OutputControl_init ''text'' (\<lambda>d w h. d @ [LF] @ d) False None)"
proof -
  let ?c = "OutputControl_init ''text'' (\<lambda>d w h. d @ [LF] @ d) False None"
  let ?c1 = "snd (preferred_height 80 24 True () ?c)"
  have c: "rendered_lines ?c = []" "cache_lookup (format_cache ?c) (80, extra_keys ?c) = None"
    "render_calls ?c = 0"
    by (simp_all add: OutputControl_init_def cache_lookup_def)
  have ls: "rendered_lines ?c1 = [''text'', ''text'']"
    by code_simp
  from c preferred_size_renders [where c = ?c and width = 80 and max_available_height = 24
      and wrap_lines = True and get_line_prefix = "()" and fragment_len = length
      and max_available_width = 80]
  have 1: "render_calls ?c1 = 1" and 4: "preferred_width length 80 ?c = (None, ?c)"
    by simp_all
  from ls preferred_size_renders [where c = ?c1 and width = 81 and max_available_height = 24
      and wrap_lines = True and get_line_prefix = "()" and fragment_len = length
      and max_available_width = 80]
  have 2: "preferred_height 81 24 True () ?c1 = (2, ?c1)"
    and 3: "preferred_width length 80 ?c1 = (Some 4, ?c1)"
    by simp_all
  from 1 2 3 4 show ?thesis by blast
qed

end
